theory Spec2Isabelle
  imports Main "HOL-Library.AList" "HOL-Library.Sublist"
begin

section \<open>Python strings and sets\<close>

text \<open>
  Strings are lists of characters. The helpers below are the Python string operations the
  program uses, on ASCII text: \<^verbatim>\<open>sep.join(xs)\<close>, \<^verbatim>\<open>s.lower()\<close>, \<^verbatim>\<open>s.strip()\<close>, \<^verbatim>\<open>s.split()\<close>,
  \<^verbatim>\<open>p in s\<close> and \<^verbatim>\<open>str(n)\<close>.
\<close>

fun join :: "string \<Rightarrow> string list \<Rightarrow> string" where
  "join sep [] = []"
| "join sep [x] = x"
| "join sep (x # y # ys) = x @ sep @ join sep (y # ys)"

definition lower_char :: "char \<Rightarrow> char" where
  "lower_char c =
     (if (65::nat) \<le> of_char c \<and> of_char c \<le> (90::nat) then char_of (of_char c + (32::nat)) else c)"

definition lower :: "string \<Rightarrow> string" where
  "lower s = map lower_char s"

definition isspace :: "char \<Rightarrow> bool" where
  "isspace c = (let n = (of_char c :: nat) in (9 \<le> n \<and> n \<le> 13) \<or> (28 \<le> n \<and> n \<le> 32))"

definition strip :: "string \<Rightarrow> string" where
  "strip s = rev (dropWhile isspace (rev (dropWhile isspace s)))"

text \<open>\<^verbatim>\<open>p in s\<close> on strings: \<open>p\<close> occurs in \<open>s\<close> as a contiguous block.\<close>

fun contains :: "string \<Rightarrow> string \<Rightarrow> bool" where
  "contains p [] = (p = [])"
| "contains p (c # cs) = (prefix p (c # cs) \<or> contains p cs)"

text \<open>
  A Python \<^verbatim>\<open>set\<close> of node ids that the program iterates over is a duplicate-free list;
  \<^verbatim>\<open>S.update(xs)\<close> adds the elements that are not yet there. The order of iteration of
  a Python set is not specified; the program only appends one edge per member to that
  member's own successor list, so the order does not show in the graph.
\<close>

definition set_update :: "nat list \<Rightarrow> nat list \<Rightarrow> nat list" where
  "set_update S xs = fold (\<lambda>x acc. if x \<in> set acc then acc else acc @ [x]) xs S"

section \<open>Graph model: \<^verbatim>\<open>class CFGNode\<close>\<close>

record CFGNode =
  node_id :: nat
  label :: string
  node_type :: string
  condition :: "string option"
  successors :: "(nat \<times> string) list"
  predecessors :: "nat set"

definition CFGNode_init :: "nat \<Rightarrow> string \<Rightarrow> string \<Rightarrow> string option \<Rightarrow> CFGNode" where
  "CFGNode_init i l t c =
     \<lparr>node_id = i, label = l, node_type = t, condition = c, successors = [], predecessors = {}\<rparr>"

definition add_successor :: "nat \<Rightarrow> string \<Rightarrow> CFGNode \<Rightarrow> CFGNode" where
  "add_successor i edge_label n = n\<lparr>successors := successors n @ [(i, edge_label)]\<rparr>"

definition add_predecessor :: "nat \<Rightarrow> CFGNode \<Rightarrow> CFGNode" where
  "add_predecessor i n = n\<lparr>predecessors := insert i (predecessors n)\<rparr>"

definition get_shape :: "CFGNode \<Rightarrow> string" where
  "get_shape n =
     (case map_of
        [(''start'', ''ellipse''), (''end'', ''ellipse''), (''process'', ''box''),
         (''decision'', ''diamond''), (''input'', ''parallelogram''),
         (''output'', ''parallelogram''), (''call'', ''box'')] (node_type n)
      of Some s \<Rightarrow> s | None \<Rightarrow> ''box'')"

definition get_color :: "CFGNode \<Rightarrow> string" where
  "get_color n =
     (case map_of
        [(''start'', ''lightgreen''), (''end'', ''lightcoral''), (''process'', ''lightyellow''),
         (''decision'', ''lightblue''), (''input'', ''lightcyan''),
         (''output'', ''lightgreen''), (''call'', ''plum'')] (node_type n)
      of Some s \<Rightarrow> s | None \<Rightarrow> ''lightgray'')"

text \<open>
  The graph is the dictionary \<^verbatim>\<open>Dict[int, CFGNode]\<close>: an association list in insertion
  order, which is the order Python iterates a dictionary in.
\<close>

type_synonym graph = "(nat \<times> CFGNode) list"

section \<open>The statement tree\<close>

text \<open>
  The tree is what \<^verbatim>\<open>ast.parse\<close> hands to the visitor. Rendering a sub-expression to text
  (\<^verbatim>\<open>ast.unparse\<close>) belongs to Python's library, so every expression the builder only
  renders is carried as its rendered text. A call is carried as the rendered callee and the
  rendered arguments; \<open>unparse\<close> puts them together the way the library does.
\<close>

datatype expr =
    ECall string "string list"
  | EOther string

fun unparse :: "expr \<Rightarrow> string" where
  "unparse (ECall func args) = func @ ''('' @ join '', '' args @ '')''"
| "unparse (EOther text) = text"

text \<open>
  \<open>FunctionDef name args body\<close>; \<open>If test body orelse\<close>; \<open>While test body orelse\<close>;
  \<open>For target iter body orelse\<close>; \<open>Return value\<close>; \<open>Assign targets value\<close>;
  \<open>AugAssign target op value\<close>; \<open>Expr value\<close>; \<open>Call func args\<close> is a call expression met as
  a child of a node without a visitor of its own; \<open>Other text kind children\<close> is any node
  without a visitor of its own: \<open>text\<close> is the result of \<^verbatim>\<open>ast.unparse\<close> on it (\<open>None\<close> when
  that raises), \<open>kind\<close> its class name and \<open>children\<close> its child nodes in field order.
\<close>

datatype ast_node =
    FunctionDef string "string list" "ast_node list"
  | If string "ast_node list" "ast_node list"
  | While string "ast_node list" "ast_node list"
  | For string string "ast_node list" "ast_node list"
  | Return "string option"
  | Assign "string list" string
  | AugAssign string string string
  | Expr expr
  | Call string "string list"
  | Other "string option" string "ast_node list"

fun is_If :: "ast_node \<Rightarrow> bool" where
  "is_If (If test body orelse) = True"
| "is_If other = False"

fun is_Return :: "ast_node \<Rightarrow> bool" where
  "is_Return (Return v) = True"
| "is_Return other = False"

section \<open>The builder: \<^verbatim>\<open>class FlowchartCFGBuilder\<close>\<close>

record FlowchartCFGBuilder =
  nodes :: graph
  current_node_id :: nat
  entry_node :: "nat option"
  current_exits :: "nat list"
  function_name :: "string option"

definition FlowchartCFGBuilder_init :: FlowchartCFGBuilder where
  "FlowchartCFGBuilder_init =
     \<lparr>nodes = [], current_node_id = 0, entry_node = None, current_exits = [],
      function_name = None\<rparr>"

definition create_node ::
  "string \<Rightarrow> string \<Rightarrow> string option \<Rightarrow> FlowchartCFGBuilder \<Rightarrow> nat \<times> FlowchartCFGBuilder" where
  "create_node l t c b =
     (let i = current_node_id b
      in (i, b\<lparr>nodes := AList.update i (CFGNode_init i l t c) (nodes b),
               current_node_id := current_node_id b + 1\<rparr>))"

definition add_edge :: "nat \<Rightarrow> nat \<Rightarrow> string \<Rightarrow> FlowchartCFGBuilder \<Rightarrow> FlowchartCFGBuilder" where
  "add_edge from_node to_node l b =
     (if from_node \<in> fst ` set (nodes b) \<and> to_node \<in> fst ` set (nodes b)
      then b\<lparr>nodes := AList.map_entry to_node (add_predecessor from_node)
                         (AList.map_entry from_node (add_successor to_node l) (nodes b))\<rparr>
      else b)"

definition connect_exits_to_node :: "nat \<Rightarrow> FlowchartCFGBuilder \<Rightarrow> FlowchartCFGBuilder" where
  "connect_exits_to_node target_node b =
     (fold (\<lambda>exit_node. add_edge exit_node target_node []) (current_exits b) b)
       \<lparr>current_exits := [target_node]\<rparr>"

text \<open>
  The relabelling at the end of \<^verbatim>\<open>visit_If\<close>: the first unlabelled edge goes to
  \<^verbatim>\<open>true_edges\<close>, every later unlabelled edge to \<^verbatim>\<open>false_edges\<close>, an edge that has a label
  already to neither; the successor list is then rebuilt from the two lists.
\<close>

definition if_split_edges ::
  "(nat \<times> string) list \<Rightarrow> (nat \<times> string) list \<times> (nat \<times> string) list" where
  "if_split_edges succs =
     fold (\<lambda>(successor_id, l) (true_edges, false_edges).
             if l = [] then
               (if length true_edges = 0
                then (true_edges @ [(successor_id, ''True'')], false_edges)
                else (true_edges, false_edges @ [(successor_id, ''False'')]))
             else (true_edges, false_edges))
          succs ([], [])"

definition if_relabel :: "CFGNode \<Rightarrow> CFGNode" where
  "if_relabel n =
     (let (true_edges, false_edges) = if_split_edges (successors n);
          n = n\<lparr>successors := []\<rparr>;
          n = fold (\<lambda>(i, l). add_successor i ''True'') true_edges n;
          n = fold (\<lambda>(i, l). add_successor i ''False'') false_edges n
      in n)"

text \<open>
  The relabelling at the end of \<^verbatim>\<open>visit_While\<close>: an edge back to the decision itself
  becomes \<^verbatim>\<open>"True"\<close>, every other edge \<^verbatim>\<open>"False"\<close>. (The list \<^verbatim>\<open>body_successors\<close> the
  source computes first is never read.)
\<close>

definition while_relabel :: "nat \<Rightarrow> CFGNode \<Rightarrow> CFGNode" where
  "while_relabel decision_node n =
     n\<lparr>successors :=
         map (\<lambda>(successor_id, l).
                if successor_id = decision_node then (successor_id, ''True'')
                else (successor_id, ''False''))
             (successors n)\<rparr>"

definition call_node_type :: "string \<Rightarrow> string" where
  "call_node_type call_text =
     (if list_ex (\<lambda>func. contains func (lower call_text)) [''print'', ''input'']
      then (if contains ''print'' (lower call_text) then ''output'' else ''input'')
      else ''call'')"

text \<open>
  \<open>visit\<close> is \<^verbatim>\<open>NodeVisitor.visit\<close>: it dispatches on the class of the node to the
  \<^verbatim>\<open>visit_<Class>\<close> method, and to \<^verbatim>\<open>generic_visit\<close> for a class without one. The builder
  object is passed in and returned. \<open>visit_statements\<close> is the loop over a statement list;
  the base class's \<^verbatim>\<open>generic_visit\<close>, which the override calls last, is the same loop over
  the child nodes. \<^verbatim>\<open>self.nodes[decision_node]\<close> is read only for a node created in the same
  call, so the key is always present.
\<close>

function visit :: "ast_node \<Rightarrow> FlowchartCFGBuilder \<Rightarrow> FlowchartCFGBuilder"
  and visit_statements :: "ast_node list \<Rightarrow> FlowchartCFGBuilder \<Rightarrow> FlowchartCFGBuilder" where
  "visit (FunctionDef name args body) b =
     (let b = b\<lparr>function_name := Some name\<rparr>;
          (func_start, b) = create_node (''def '' @ name @ ''('' @ join '', '' args @ '')'') ''start'' None b;
          b = connect_exits_to_node func_start b;
          b = (if body \<noteq> [] then visit_statements body b else b)
      in if \<not> list_ex is_Return body
         then (let (return_node, b) = create_node ''return None'' ''output'' None b
               in connect_exits_to_node return_node b)
         else b)"
| "visit (If test body orelse) b =
     (let condition_text = test;
          (decision_node, b) = create_node condition_text ''decision'' (Some condition_text) b;
          b = connect_exits_to_node decision_node b;
          saved_exits = [];
          b = b\<lparr>current_exits := [decision_node]\<rparr>;
          b = (if body \<noteq> [] then visit_statements body b else b);
          saved_exits = set_update saved_exits (current_exits b);
          b = b\<lparr>current_exits := [decision_node]\<rparr>;
          b = (if orelse \<noteq> [] then
                 (if length orelse = 1 \<and> is_If (hd orelse) then visit (hd orelse) b
                  else visit_statements orelse b)
               else b);
          saved_exits = set_update saved_exits (current_exits b);
          b = b\<lparr>nodes := AList.map_entry decision_node if_relabel (nodes b)\<rparr>
      in b\<lparr>current_exits := saved_exits\<rparr>)"
| "visit (While test body orelse) b =
     (let condition_text = test;
          (decision_node, b) = create_node condition_text ''decision'' (Some condition_text) b;
          b = connect_exits_to_node decision_node b;
          b = b\<lparr>current_exits := [decision_node]\<rparr>;
          b = (if body \<noteq> [] then visit_statements body b else b);
          b = fold (\<lambda>exit_node. add_edge exit_node decision_node []) (current_exits b) b;
          b = b\<lparr>current_exits := [decision_node]\<rparr>
      in b\<lparr>nodes := AList.map_entry decision_node (while_relabel decision_node) (nodes b)\<rparr>)"
| "visit (For target iter body orelse) b =
     (let condition_text = ''for '' @ target @ '' in '' @ iter;
          (decision_node, b) = create_node condition_text ''decision'' (Some condition_text) b;
          b = connect_exits_to_node decision_node b;
          b = b\<lparr>current_exits := [decision_node]\<rparr>;
          b = (if body \<noteq> [] then visit_statements body b else b);
          b = fold (\<lambda>exit_node. add_edge exit_node decision_node []) (current_exits b) b
      in b\<lparr>current_exits := [decision_node]\<rparr>)"
| "visit (Return v) b =
     (let return_text = (case v of Some e \<Rightarrow> ''return '' @ e | None \<Rightarrow> ''return'');
          (return_node, b) = create_node return_text ''output'' None b;
          b = connect_exits_to_node return_node b
      in b\<lparr>current_exits := []\<rparr>)"
| "visit (Assign targets val) b =
     (let assign_text = join '' = '' targets @ '' = '' @ val;
          (assign_node, b) = create_node assign_text ''process'' None b
      in connect_exits_to_node assign_node b)"
| "visit (AugAssign target op val) b =
     (let assign_text = target @ '' '' @ op @ ''= '' @ val;
          (assign_node, b) = create_node assign_text ''process'' None b
      in connect_exits_to_node assign_node b)"
| "visit (Expr e) b =
     (case e of
        ECall func args \<Rightarrow>
          (let call_text = unparse e;
               (call_node, b) = create_node call_text (call_node_type call_text) None b
           in connect_exits_to_node call_node b)
      | EOther text \<Rightarrow>
          (let expr_text = unparse e;
               (expr_node, b) = create_node expr_text ''process'' None b
           in connect_exits_to_node expr_node b))"
| "visit (Call func args) b =
     (let call_text = unparse (ECall func args);
          t = (if list_ex (\<lambda>f. contains f (lower call_text)) [''input''] then ''input'' else ''call'')
      in snd (create_node call_text t None b))"
| "visit (Other text kind children) b =
     (let b = (case text of
                 Some stmt_text \<Rightarrow>
                   (if length (strip stmt_text) > 0
                    then (let (process_node, b) = create_node stmt_text ''process'' None b
                          in connect_exits_to_node process_node b)
                    else b)
               | None \<Rightarrow>
                   (let (process_node, b) = create_node (''# '' @ kind) ''process'' None b
                    in connect_exits_to_node process_node b))
      in visit_statements children b)"
| "visit_statements [] b = b"
| "visit_statements (stmt # statements) b = visit_statements statements (visit stmt b)"
  by pat_completeness auto
termination
  apply (relation "measure (\<lambda>x. case x of Inl (t, b) \<Rightarrow> size t | Inr (ts, b) \<Rightarrow> size_list size ts)")
  apply auto
  subgoal for test body orelse by (cases orelse) auto
  done

definition visit_Module :: "ast_node list \<Rightarrow> FlowchartCFGBuilder \<Rightarrow> FlowchartCFGBuilder" where
  "visit_Module body b =
     (let (start, b) = create_node ''START'' ''start'' None b;
          b = b\<lparr>entry_node := Some start\<rparr>;
          b = b\<lparr>current_exits := [start]\<rparr>;
          b = (if body \<noteq> [] then visit_statements body b else b);
          (end_node, b) = create_node ''END'' ''end'' None b
      in connect_exits_to_node end_node b)"

text \<open>
  \<^verbatim>\<open>create_flowchart_cfg\<close>: the argument is the result of \<^verbatim>\<open>ast.parse\<close>, \<open>None\<close> when it
  raises; the function then returns the empty dictionary. (The traversal itself raises
  only when a tree is nested deeper than Python's recursion limit; the model has no such
  limit.)
\<close>

definition create_flowchart_cfg :: "ast_node list option \<Rightarrow> graph" where
  "create_flowchart_cfg tree =
     (case tree of
        Some body \<Rightarrow> nodes (visit_Module body FlowchartCFGBuilder_init)
      | None \<Rightarrow> [])"

section \<open>Complexity analyzer\<close>

definition calculate_cyclomatic_complexity :: "graph \<Rightarrow> int" where
  "calculate_cyclomatic_complexity g =
     (if g = [] then 0
      else (let N = int (length g);
                E = int (sum_list (map (\<lambda>(i, n). length (successors n)) g));
                P = 1;
                complexity = E - N + 2 * P
            in max complexity 1))"

definition calculate_complexity_by_decisions :: "graph \<Rightarrow> int" where
  "calculate_complexity_by_decisions g =
     (let decision_count = int (length (filter (\<lambda>(i, n). node_type n = ''decision'') g))
      in decision_count + 1)"

section \<open>Graph exporter\<close>

fun split_ws :: "string \<Rightarrow> string \<Rightarrow> string list" where
  "split_ws w [] = (if w = [] then [] else [w])"
| "split_ws w (c # cs) =
     (if isspace c then (if w = [] then split_ws [] cs else w # split_ws [] cs)
      else split_ws (w @ [c]) cs)"

definition split :: "string \<Rightarrow> string list" where
  "split s = split_ws [] s"

definition digit_char :: "nat \<Rightarrow> char" where
  "digit_char d = char_of (48 + d)"

fun str :: "nat \<Rightarrow> string" where
  "str n = (if n < 10 then [digit_char n] else str (n div 10) @ [digit_char (n mod 10)])"

declare str.simps [simp del]

text \<open>
  The calls the exporter makes on the \<^verbatim>\<open>graphviz.Digraph\<close> object, in the order it makes
  them. Turning the object into text (\<^verbatim>\<open>dot.source\<close>) is the library's work and is a
  parameter of \<open>visualize_flowchart_cfg\<close>.
\<close>

datatype dot_call =
    Attr "string option" "(string \<times> string) list"
  | Node string string "(string \<times> string) list"
  | Edge string string "string option"

record Digraph =
  dot_comment :: string
  dot_format :: string
  dot_body :: "dot_call list"

text \<open>The greedy wrapping of a label longer than 30 characters: one step per word.\<close>

definition wrap_word ::
  "string \<Rightarrow> string list \<times> string list \<times> nat \<Rightarrow> string list \<times> string list \<times> nat" where
  "wrap_word word st =
     (case st of (lines, current_line, current_length) \<Rightarrow>
        if current_length + length word + 1 \<le> 30
        then (lines, current_line @ [word], current_length + (length word + 1))
        else ((if current_line \<noteq> [] then lines @ [join '' '' current_line] else lines),
              [word], length word))"

definition wrap_label :: "string \<Rightarrow> string" where
  "wrap_label l =
     (if length l > 30 then
        (case fold wrap_word (split l) ([], [], 0) of
           (lines, current_line, current_length) \<Rightarrow>
             join [CHR 0x5C, CHR ''n'']
               (if current_line \<noteq> [] then lines @ [join '' '' current_line] else lines))
      else l)"

definition node_call :: "nat \<times> CFGNode \<Rightarrow> dot_call" where
  "node_call e =
     (case e of (i, n) \<Rightarrow>
        (let shape = get_shape n;
             color = get_color n
         in Node (str i) (wrap_label (label n))
              [(''shape'', shape), (''fillcolor'', color), (''style'', ''filled''),
               (''width'', if shape = ''diamond'' then ''1.5'' else ''1.0''),
               (''height'', if shape = ''diamond'' then ''1.0'' else ''0.5'')]))"

definition edge_calls :: "nat \<times> CFGNode \<Rightarrow> dot_call list" where
  "edge_calls e =
     (case e of (i, n) \<Rightarrow>
        map (\<lambda>(successor_id, edge_label).
               if edge_label \<noteq> [] then Edge (str i) (str successor_id) (Some edge_label)
               else Edge (str i) (str successor_id) None)
            (successors n))"

definition visualize_flowchart_cfg :: "(Digraph \<Rightarrow> string) \<Rightarrow> graph \<Rightarrow> string" where
  "visualize_flowchart_cfg source g =
     (if g = [] then []
      else source
        \<lparr>dot_comment = ''Control Flow Graph'', dot_format = ''png'',
         dot_body =
           [Attr None [(''rankdir'', ''TB''), (''splines'', ''ortho'')],
            Attr (Some ''node'') [(''fontname'', ''Arial''), (''fontsize'', ''10'')],
            Attr (Some ''edge'') [(''fontname'', ''Arial''), (''fontsize'', ''9'')]]
           @ map node_call g @ concat (map edge_calls g)\<rparr>)"

text \<open>
  A plain rendering of the recorded calls, one call after the other, for use where a
  concrete renderer is needed. (The text that graphviz produces differs from it in layout
  and quoting.)
\<close>

definition attrs_text :: "(string \<times> string) list \<Rightarrow> string" where
  "attrs_text attrs = join '' '' (map (\<lambda>(k, v). k @ ''='' @ v) attrs)"

fun call_text :: "dot_call \<Rightarrow> string" where
  "call_text (Attr kw attrs) =
     (case kw of Some k \<Rightarrow> k | None \<Rightarrow> ''graph'') @ '' ['' @ attrs_text attrs @ '']''"
| "call_text (Node name l attrs) = name @ '' ['' @ attrs_text ((''label'', l) # attrs) @ '']''"
| "call_text (Edge tail head l) =
     tail @ '' -> '' @ head
       @ (case l of Some x \<Rightarrow> '' ['' @ attrs_text [(''label'', x)] @ '']'' | None \<Rightarrow> [])"

definition plain_source :: "Digraph \<Rightarrow> string" where
  "plain_source d = concat (map (\<lambda>c. call_text c @ ''; '') (dot_body d))"

section \<open>Observations on graphs\<close>

text \<open>What the exporter reads of a graph: ids, labels, kinds and edges, in order.\<close>

definition export_view :: "graph \<Rightarrow> (nat \<times> string \<times> string \<times> (nat \<times> string) list) list" where
  "export_view g = map (\<lambda>(i, n). (i, label n, node_type n, successors n)) g"

text \<open>The node table as (id, label, kind) and the edges as (source, target, label), in order.\<close>

definition node_list :: "graph \<Rightarrow> (nat \<times> string \<times> string) list" where
  "node_list g = map (\<lambda>(i, n). (i, label n, node_type n)) g"

definition edge_list :: "graph \<Rightarrow> (nat \<times> nat \<times> string) list" where
  "edge_list g = concat (map (\<lambda>(i, n). map (\<lambda>(t, l). (i, t, l)) (successors n)) g)"

definition kinds :: "graph \<Rightarrow> string list" where
  "kinds g = map (\<lambda>(i, n). node_type n) g"

definition edge_count :: "graph \<Rightarrow> nat" where
  "edge_count g = sum_list (map (\<lambda>(i, n). length (successors n)) g)"

definition successors_of :: "graph \<Rightarrow> nat \<Rightarrow> (nat \<times> string) list" where
  "successors_of g i = (case map_of g i of Some n \<Rightarrow> successors n | None \<Rightarrow> [])"

definition incoming :: "graph \<Rightarrow> nat \<Rightarrow> nat list" where
  "incoming g k = map fst (filter (\<lambda>(i, t, l). t = k) (edge_list g))"

text \<open>
  The ids in use are exactly \<open>0, ..., current_node_id - 1\<close>, in this order; a builder is
  well formed when, besides, its frontier is a set of ids in use and every edge leads to an
  id in use.
\<close>

definition keys_ok :: "FlowchartCFGBuilder \<Rightarrow> bool" where
  "keys_ok b = (map fst (nodes b) = [0..<current_node_id b])"

definition wf :: "FlowchartCFGBuilder \<Rightarrow> bool" where
  "wf b = (keys_ok b \<and> distinct (current_exits b)
           \<and> list_all (\<lambda>e. e < current_node_id b) (current_exits b)
           \<and> list_all (\<lambda>(i, t, l). t < current_node_id b) (edge_list (nodes b)))"

text \<open>
  Every visitor method but \<^verbatim>\<open>visit_Call\<close> begins by creating a node and connecting the
  frontier to it.
\<close>

definition create_and_connect ::
  "string \<Rightarrow> string \<Rightarrow> string option \<Rightarrow> FlowchartCFGBuilder \<Rightarrow> FlowchartCFGBuilder" where
  "create_and_connect l t c b =
     connect_exits_to_node (fst (create_node l t c b)) (snd (create_node l t c b))"

text \<open>The kinds of the nodes that visiting a tree creates, in the order of creation.\<close>

fun node_kinds :: "ast_node \<Rightarrow> string list" where
  "node_kinds (FunctionDef name args body) =
     ''start'' # concat (map node_kinds body)
       @ (if \<not> list_ex is_Return body then [''output''] else [])"
| "node_kinds (If test body orelse) =
     ''decision'' # concat (map node_kinds body) @ concat (map node_kinds orelse)"
| "node_kinds (While test body orelse) = ''decision'' # concat (map node_kinds body)"
| "node_kinds (For target iter body orelse) = ''decision'' # concat (map node_kinds body)"
| "node_kinds (Return v) = [''output'']"
| "node_kinds (Assign targets val) = [''process'']"
| "node_kinds (AugAssign target op val) = [''process'']"
| "node_kinds (Expr e) =
     (case e of ECall func args \<Rightarrow> [call_node_type (unparse e)] | EOther text \<Rightarrow> [''process''])"
| "node_kinds (Call func args) =
     [if list_ex (\<lambda>f. contains f (lower (unparse (ECall func args)))) [''input'']
      then ''input'' else ''call'']"
| "node_kinds (Other text kind children) =
     (case text of
        Some stmt_text \<Rightarrow> (if length (strip stmt_text) > 0 then [''process''] else [])
      | None \<Rightarrow> [''process''])
     @ concat (map node_kinds children)"

text \<open>The number of \<^verbatim>\<open>def\<close> statements anywhere in a tree.\<close>

fun all_function_defs :: "ast_node \<Rightarrow> nat" where
  "all_function_defs (FunctionDef name args body) = Suc (sum_list (map all_function_defs body))"
| "all_function_defs (If test body orelse) =
     sum_list (map all_function_defs body) + sum_list (map all_function_defs orelse)"
| "all_function_defs (While test body orelse) =
     sum_list (map all_function_defs body) + sum_list (map all_function_defs orelse)"
| "all_function_defs (For target iter body orelse) =
     sum_list (map all_function_defs body) + sum_list (map all_function_defs orelse)"
| "all_function_defs (Other text kind children) = sum_list (map all_function_defs children)"
| "all_function_defs other = 0"

text \<open>
  \<open>has_def\<close>: the tree holds a function definition, \<^verbatim>\<open>def\<close> or \<^verbatim>\<open>async def\<close> (a node of
  the class \<^verbatim>\<open>AsyncFunctionDef\<close>, which has no visitor of its own). \<open>defs_in_reach\<close>: every
  function definition of the tree is a \<^verbatim>\<open>def\<close> and none lies in the else-branch of a loop.
\<close>

fun has_def :: "ast_node \<Rightarrow> bool" where
  "has_def (FunctionDef name args body) = True"
| "has_def (If test body orelse) = (list_ex has_def body \<or> list_ex has_def orelse)"
| "has_def (While test body orelse) = (list_ex has_def body \<or> list_ex has_def orelse)"
| "has_def (For target iter body orelse) = (list_ex has_def body \<or> list_ex has_def orelse)"
| "has_def (Other text kind children) =
     (kind = ''AsyncFunctionDef'' \<or> list_ex has_def children)"
| "has_def other = False"

fun defs_in_reach :: "ast_node \<Rightarrow> bool" where
  "defs_in_reach (FunctionDef name args body) = list_all defs_in_reach body"
| "defs_in_reach (If test body orelse) =
     (list_all defs_in_reach body \<and> list_all defs_in_reach orelse)"
| "defs_in_reach (While test body orelse) =
     (list_all defs_in_reach body \<and> \<not> list_ex has_def orelse)"
| "defs_in_reach (For target iter body orelse) =
     (list_all defs_in_reach body \<and> \<not> list_ex has_def orelse)"
| "defs_in_reach (Other text kind children) =
     (kind \<noteq> ''AsyncFunctionDef'' \<and> list_all defs_in_reach children)"
| "defs_in_reach other = True"

text \<open>
  A node without a visitor of its own whose rendered text is blank creates no node, and
  so does a tree of such nodes. \<open>one_node_stmt\<close>: the statement kinds for which the builder
  creates exactly one node, connects the frontier to it and makes it the frontier: plain
  assignments, augmented assignments, expression statements, and statements without a
  visitor of their own none of whose children creates a node (\<^verbatim>\<open>pass\<close>, \<^verbatim>\<open>break\<close>,
  \<^verbatim>\<open>continue\<close>, \<^verbatim>\<open>global\<close>, \<^verbatim>\<open>nonlocal\<close>, a bare \<^verbatim>\<open>raise\<close>).
\<close>

fun creates_no_node :: "ast_node \<Rightarrow> bool" where
  "creates_no_node (Other text kind children) =
     ((case text of Some stmt_text \<Rightarrow> length (strip stmt_text) = 0 | None \<Rightarrow> False)
      \<and> list_all creates_no_node children)"
| "creates_no_node other = False"

fun one_node_stmt :: "ast_node \<Rightarrow> bool" where
  "one_node_stmt (Assign targets val) = True"
| "one_node_stmt (AugAssign target op val) = True"
| "one_node_stmt (Expr e) = True"
| "one_node_stmt (Other text kind children) =
     ((case text of Some stmt_text \<Rightarrow> length (strip stmt_text) > 0 | None \<Rightarrow> True)
      \<and> list_all creates_no_node children)"
| "one_node_stmt other = False"

section \<open>Cyclomatic complexity\<close>

lemma edge_count_edge_list: "edge_count g = length (edge_list g)"
  by (induction g) (auto simp: edge_count_def edge_list_def)

text \<open>
  Claim C5, as amended: on every non-empty graph the cyclomatic complexity is
  \<open>max 1 (E - N + 2)\<close>, with \<open>E\<close> the total number of outgoing edges and \<open>N\<close> the number of
  nodes, and so at least 1. (On the empty graph the function returns 0.)
\<close>

theorem cyclomatic_complexity_nonempty:
  "g \<noteq> [] \<Longrightarrow>
     calculate_cyclomatic_complexity g = max 1 (int (edge_count g) - int (length g) + 2)
     \<and> 1 \<le> calculate_cyclomatic_complexity g"
  by (simp add: calculate_cyclomatic_complexity_def edge_count_def Let_def max.commute)

theorem cyclomatic_complexity_nonempty_witness:
  "[(0, CFGNode_init 0 ''START'' ''start'' None)] \<noteq> []
   \<and> calculate_cyclomatic_complexity [(0, CFGNode_init 0 ''START'' ''start'' None)] = 1"
  using cyclomatic_complexity_nonempty [of "[(0, CFGNode_init 0 ''START'' ''start'' None)]"]
  by (simp add: edge_count_def CFGNode_init_def)

text \<open>Claim C5 as stated fails on the empty graph, where the result is 0.\<close>

theorem cyclomatic_complexity_empty_counterexample:
  "calculate_cyclomatic_complexity [] = 0 \<and> \<not> 1 \<le> calculate_cyclomatic_complexity []"
  by (simp add: calculate_cyclomatic_complexity_def)

section \<open>Association lists and the primitives of the builder\<close>

subsection \<open>Association lists\<close>

lemma update_fresh: "k \<notin> fst ` set g \<Longrightarrow> AList.update k v g = g @ [(k, v)]"
  by (induction g) auto

lemma map_fst_map_entry [simp]: "map fst (AList.map_entry k f g) = map fst g"
  by (induction g) auto

lemma length_map_entry [simp]: "length (AList.map_entry k f g) = length g"
  by (induction g) auto

lemma kinds_map_entry:
  "(\<And>n. node_type (f n) = node_type n) \<Longrightarrow> kinds (AList.map_entry k f g) = kinds g"
  by (induction g) (auto simp: kinds_def)

lemma node_list_map_entry:
  "(\<And>n. node_type (f n) = node_type n) \<Longrightarrow> (\<And>n. label (f n) = label n) \<Longrightarrow>
     node_list (AList.map_entry k f g) = node_list g"
  by (induction g) (auto simp: node_list_def)

lemma edge_count_map_entry_same:
  "(\<And>n. successors (f n) = successors n) \<Longrightarrow> edge_count (AList.map_entry k f g) = edge_count g"
  by (induction g) (auto simp: edge_count_def)

lemma edge_list_map_entry_same:
  "(\<And>n. successors (f n) = successors n) \<Longrightarrow> edge_list (AList.map_entry k f g) = edge_list g"
  by (induction g) (auto simp: edge_list_def)

lemma edge_count_map_entry_add:
  "k \<in> fst ` set g \<Longrightarrow>
     edge_count (AList.map_entry k (add_successor t l) g) = Suc (edge_count g)"
  by (induction g) (auto simp: edge_count_def add_successor_def)

lemma edge_count_map_entry_le:
  "edge_count (AList.map_entry k (add_successor t l) g) \<le> Suc (edge_count g)"
  by (induction g) (auto simp: edge_count_def add_successor_def)

lemma successors_of_map_entry:
  "successors_of (AList.map_entry k f g) i =
     (if i = k then (case map_of g k of Some n \<Rightarrow> successors (f n) | None \<Rightarrow> [])
      else successors_of g i)"
  by (simp add: successors_of_def map_of_map_entry split: option.splits)

lemma successors_of_append_fresh:
  "k \<notin> fst ` set g \<Longrightarrow>
     successors_of (g @ [(k, n)]) i = (if i = k then successors n else successors_of g i)"
proof -
  assume "k \<notin> fst ` set g"
  then have none: "map_of g k = None" by (simp add: map_of_eq_None_iff)
  show ?thesis
    by (cases "map_of g i") (auto simp: successors_of_def map_add_def none)
qed

lemma edge_list_Cons:
  "edge_list ((k, n) # g) = map (\<lambda>(t, l). (k, t, l)) (successors n) @ edge_list g"
  by (simp add: edge_list_def)

lemma edge_list_source: "(i, t, l) \<in> set (edge_list g) \<Longrightarrow> i \<in> fst ` set g"
  by (force simp: edge_list_def)

lemma edge_list_iff:
  "distinct (map fst g) \<Longrightarrow>
     (i, t, l) \<in> set (edge_list g) \<longleftrightarrow> (t, l) \<in> set (successors_of g i)"
proof (induction g)
  case Nil
  then show ?case by (simp add: edge_list_def successors_of_def)
next
  case (Cons a g)
  obtain k n where a: "a = (k, n)" by (cases a)
  from Cons.prems a have fresh: "k \<notin> fst ` set g" and d: "distinct (map fst g)" by auto
  show ?case
  proof (cases "i = k")
    case True
    have "(k, t, l) \<notin> set (edge_list g)"
      using fresh edge_list_source by blast
    moreover have "successors_of ((k, n) # g) k = successors n"
      by (simp add: successors_of_def)
    ultimately show ?thesis unfolding a True by (auto simp: edge_list_Cons)
  next
    case False
    then have "successors_of ((k, n) # g) i = successors_of g i"
      by (simp add: successors_of_def)
    with False Cons.IH [OF d] show ?thesis unfolding a by (auto simp: edge_list_Cons)
  qed
qed

lemma incoming_Nil_iff:
  "distinct (map fst g) \<Longrightarrow>
     incoming g k = [] \<longleftrightarrow> (\<forall>i. k \<notin> fst ` set (successors_of g i))"
proof -
  assume d: "distinct (map fst g)"
  have "incoming g k = [] \<longleftrightarrow> (\<forall>i l. (i, k, l) \<notin> set (edge_list g))"
    by (auto simp: incoming_def filter_empty_conv)
  also have "\<dots> \<longleftrightarrow> (\<forall>i l. (k, l) \<notin> set (successors_of g i))"
    using edge_list_iff [OF d] by simp
  also have "\<dots> \<longleftrightarrow> (\<forall>i. k \<notin> fst ` set (successors_of g i))"
    by force
  finally show ?thesis .
qed


subsection \<open>The primitives of the builder\<close>

lemma keys_ok_mem: "keys_ok b \<Longrightarrow> i \<in> fst ` set (nodes b) \<longleftrightarrow> i < current_node_id b"
proof -
  assume "keys_ok b"
  then have "set (map fst (nodes b)) = {..<current_node_id b}"
    by (auto simp: keys_ok_def)
  then show ?thesis by auto
qed

lemma keys_ok_distinct: "keys_ok b \<Longrightarrow> distinct (map fst (nodes b))"
  by (simp add: keys_ok_def)

lemma keys_ok_length: "keys_ok b \<Longrightarrow> length (nodes b) = current_node_id b"
  by (metis keys_ok_def length_map length_upt minus_nat.diff_0)

lemma fst_create_node [simp]: "fst (create_node l t c b) = current_node_id b"
  by (simp add: create_node_def Let_def)

lemma cur_create_node [simp]:
  "current_node_id (snd (create_node l t c b)) = Suc (current_node_id b)"
  by (simp add: create_node_def Let_def)

lemma exits_create_node [simp]:
  "current_exits (snd (create_node l t c b)) = current_exits b"
  by (simp add: create_node_def Let_def)

lemma nodes_create_node:
  "keys_ok b \<Longrightarrow>
     nodes (snd (create_node l t c b)) =
       nodes b @ [(current_node_id b, CFGNode_init (current_node_id b) l t c)]"
  by (simp add: create_node_def Let_def update_fresh keys_ok_mem)

lemma keys_ok_create_node: "keys_ok b \<Longrightarrow> keys_ok (snd (create_node l t c b))"
  by (simp add: keys_ok_def nodes_create_node)

lemma cur_add_edge [simp]: "current_node_id (add_edge f t l b) = current_node_id b"
  by (simp add: add_edge_def)

lemma exits_add_edge [simp]: "current_exits (add_edge f t l b) = current_exits b"
  by (simp add: add_edge_def)

lemma keys_add_edge [simp]: "map fst (nodes (add_edge f t l b)) = map fst (nodes b)"
  by (simp add: add_edge_def)

lemma length_add_edge [simp]: "length (nodes (add_edge f t l b)) = length (nodes b)"
  by (simp add: add_edge_def)

lemma keys_ok_add_edge [simp]: "keys_ok (add_edge f t l b) = keys_ok b"
  by (simp add: keys_ok_def)

lemma node_list_add_edge [simp]: "node_list (nodes (add_edge f t l b)) = node_list (nodes b)"
  by (simp add: add_edge_def node_list_map_entry add_successor_def add_predecessor_def)

lemma kinds_add_edge [simp]: "kinds (nodes (add_edge f t l b)) = kinds (nodes b)"
  by (simp add: add_edge_def kinds_map_entry add_successor_def add_predecessor_def)

lemma edge_count_add_edge_le:
  "edge_count (nodes (add_edge f t l b)) \<le> Suc (edge_count (nodes b))"
  by (simp add: add_edge_def edge_count_map_entry_same add_predecessor_def
      edge_count_map_entry_le)

lemma edge_count_add_edge:
  "f \<in> fst ` set (nodes b) \<Longrightarrow> t \<in> fst ` set (nodes b) \<Longrightarrow>
     edge_count (nodes (add_edge f t l b)) = Suc (edge_count (nodes b))"
  by (simp add: add_edge_def edge_count_map_entry_same add_predecessor_def
      edge_count_map_entry_add)

lemma successors_of_add_edge:
  "f \<in> fst ` set (nodes b) \<Longrightarrow> t \<in> fst ` set (nodes b) \<Longrightarrow>
     successors_of (nodes (add_edge f t l b)) i =
       (if i = f then successors_of (nodes b) f @ [(t, l)] else successors_of (nodes b) i)"
  by (auto simp: add_edge_def successors_of_def map_of_map_entry add_successor_def
      add_predecessor_def map_of_eq_None_iff split: option.splits)

lemma add_edge_skip:
  "\<not> (f \<in> fst ` set (nodes b) \<and> t \<in> fst ` set (nodes b)) \<Longrightarrow> add_edge f t l b = b"
  by (auto simp: add_edge_def)


lemma keys_set_add_edge [simp]: "fst ` set (nodes (add_edge f t l b)) = fst ` set (nodes b)"
  using keys_add_edge [of f t l b] by (metis set_map)

lemma cur_fold_add_edge [simp]:
  "current_node_id (fold (\<lambda>e. add_edge e t l) es b) = current_node_id b"
  by (induction es arbitrary: b) auto

lemma exits_fold_add_edge [simp]:
  "current_exits (fold (\<lambda>e. add_edge e t l) es b) = current_exits b"
  by (induction es arbitrary: b) auto

lemma keys_fold_add_edge [simp]:
  "map fst (nodes (fold (\<lambda>e. add_edge e t l) es b)) = map fst (nodes b)"
  by (induction es arbitrary: b) auto

lemma keys_set_fold_add_edge [simp]:
  "fst ` set (nodes (fold (\<lambda>e. add_edge e t l) es b)) = fst ` set (nodes b)"
  by (induction es arbitrary: b) auto

lemma length_fold_add_edge [simp]:
  "length (nodes (fold (\<lambda>e. add_edge e t l) es b)) = length (nodes b)"
  by (induction es arbitrary: b) auto

lemma keys_ok_fold_add_edge [simp]:
  "keys_ok (fold (\<lambda>e. add_edge e t l) es b) = keys_ok b"
  by (simp add: keys_ok_def)

lemma node_list_fold_add_edge [simp]:
  "node_list (nodes (fold (\<lambda>e. add_edge e t l) es b)) = node_list (nodes b)"
  by (induction es arbitrary: b) auto

lemma kinds_fold_add_edge [simp]:
  "kinds (nodes (fold (\<lambda>e. add_edge e t l) es b)) = kinds (nodes b)"
  by (induction es arbitrary: b) auto

lemma edge_count_fold_add_edge_le:
  "edge_count (nodes (fold (\<lambda>e. add_edge e t l) es b)) \<le> edge_count (nodes b) + length es"
proof (induction es arbitrary: b)
  case Nil
  then show ?case by simp
next
  case (Cons e es)
  have "edge_count (nodes (fold (\<lambda>e. add_edge e t l) es (add_edge e t l b)))
          \<le> edge_count (nodes (add_edge e t l b)) + length es"
    by (rule Cons.IH)
  also have "\<dots> \<le> Suc (edge_count (nodes b)) + length es"
    using edge_count_add_edge_le [of e t l b] by simp
  finally show ?case by simp
qed

lemma edge_count_fold_add_edge:
  "set es \<subseteq> fst ` set (nodes b) \<Longrightarrow> t \<in> fst ` set (nodes b) \<Longrightarrow>
     edge_count (nodes (fold (\<lambda>e. add_edge e t l) es b)) = edge_count (nodes b) + length es"
proof (induction es arbitrary: b)
  case Nil
  then show ?case by simp
next
  case (Cons e es)
  from Cons.prems have e: "e \<in> fst ` set (nodes b)" by simp
  have "edge_count (nodes (fold (\<lambda>e. add_edge e t l) es (add_edge e t l b)))
          = edge_count (nodes (add_edge e t l b)) + length es"
    using Cons.prems by (intro Cons.IH) auto
  then show ?case
    using edge_count_add_edge [OF e Cons.prems(2), of l] by simp
qed

lemma successors_of_fold_add_edge:
  "distinct es \<Longrightarrow> set es \<subseteq> fst ` set (nodes b) \<Longrightarrow> t \<in> fst ` set (nodes b) \<Longrightarrow>
     successors_of (nodes (fold (\<lambda>e. add_edge e t l) es b)) i =
       (if i \<in> set es then successors_of (nodes b) i @ [(t, l)] else successors_of (nodes b) i)"
proof (induction es arbitrary: b)
  case Nil
  then show ?case by simp
next
  case (Cons e es)
  from Cons.prems have e: "e \<in> fst ` set (nodes b)" and ne: "e \<notin> set es" by auto
  have "successors_of (nodes (fold (\<lambda>e. add_edge e t l) es (add_edge e t l b))) i =
          (if i \<in> set es then successors_of (nodes (add_edge e t l b)) i @ [(t, l)]
           else successors_of (nodes (add_edge e t l b)) i)"
    using Cons.prems by (intro Cons.IH) auto
  then show ?case
    using ne by (auto simp: successors_of_add_edge [OF e Cons.prems(3)])
qed

text \<open>
  The order in which the members of the frontier are taken does not show in the labels,
  kinds and edges of the graph.
\<close>

lemma frontier_order_irrelevant:
  "distinct es \<Longrightarrow> distinct es' \<Longrightarrow> set es = set es' \<Longrightarrow>
   set es \<subseteq> fst ` set (nodes b) \<Longrightarrow> t \<in> fst ` set (nodes b) \<Longrightarrow>
     successors_of (nodes (fold (\<lambda>e. add_edge e t l) es b)) i =
       successors_of (nodes (fold (\<lambda>e. add_edge e t l) es' b)) i
     \<and> node_list (nodes (fold (\<lambda>e. add_edge e t l) es b)) =
         node_list (nodes (fold (\<lambda>e. add_edge e t l) es' b))"
  by (simp add: successors_of_fold_add_edge)

subsection \<open>Connecting the frontier\<close>

lemma cur_connect [simp]:
  "current_node_id (connect_exits_to_node t b) = current_node_id b"
  by (simp add: connect_exits_to_node_def)

lemma exits_connect [simp]: "current_exits (connect_exits_to_node t b) = [t]"
  by (simp add: connect_exits_to_node_def)

lemma nodes_connect:
  "nodes (connect_exits_to_node t b) = nodes (fold (\<lambda>e. add_edge e t []) (current_exits b) b)"
  by (simp add: connect_exits_to_node_def)

lemma keys_ok_connect [simp]: "keys_ok (connect_exits_to_node t b) = keys_ok b"
  by (simp add: keys_ok_def nodes_connect)

lemma connect_empty_frontier:
  "current_exits b = [] \<Longrightarrow> nodes (connect_exits_to_node t b) = nodes b"
  by (simp add: nodes_connect)


subsection \<open>Creating a node and connecting the frontier\<close>

lemma create_node_pair:
  "create_node l t c b = (current_node_id b, snd (create_node l t c b))"
  by (simp add: create_node_def Let_def)

lemma cur_create_and_connect [simp]:
  "current_node_id (create_and_connect l t c b) = Suc (current_node_id b)"
  by (simp add: create_and_connect_def)

lemma exits_create_and_connect [simp]:
  "current_exits (create_and_connect l t c b) = [current_node_id b]"
  by (simp add: create_and_connect_def)

lemma keys_ok_create_and_connect:
  "keys_ok b \<Longrightarrow> keys_ok (create_and_connect l t c b)"
  by (simp add: create_and_connect_def keys_ok_create_node)

lemma node_list_create_node:
  "keys_ok b \<Longrightarrow>
     node_list (nodes (snd (create_node l t c b))) =
       node_list (nodes b) @ [(current_node_id b, l, t)]"
  by (simp add: nodes_create_node node_list_def CFGNode_init_def)

lemma kinds_create_node:
  "keys_ok b \<Longrightarrow> kinds (nodes (snd (create_node l t c b))) = kinds (nodes b) @ [t]"
  by (simp add: nodes_create_node kinds_def CFGNode_init_def)

lemma edge_count_create_node:
  "keys_ok b \<Longrightarrow> edge_count (nodes (snd (create_node l t c b))) = edge_count (nodes b)"
  by (simp add: nodes_create_node edge_count_def CFGNode_init_def)

lemma successors_of_create_node:
  "keys_ok b \<Longrightarrow>
     successors_of (nodes (snd (create_node l t c b))) i = successors_of (nodes b) i"
proof -
  assume k: "keys_ok b"
  then have fresh: "current_node_id b \<notin> fst ` set (nodes b)"
    by (simp add: keys_ok_mem)
  then have "map_of (nodes b) (current_node_id b) = None"
    by (simp add: map_of_eq_None_iff)
  then have "successors_of (nodes b) (current_node_id b) = []"
    by (simp add: successors_of_def)
  then show ?thesis
    using k fresh by (simp add: nodes_create_node successors_of_append_fresh CFGNode_init_def)
qed

lemma node_list_create_and_connect:
  "keys_ok b \<Longrightarrow>
     node_list (nodes (create_and_connect l t c b)) =
       node_list (nodes b) @ [(current_node_id b, l, t)]"
  by (simp add: create_and_connect_def nodes_connect node_list_create_node)

lemma kinds_create_and_connect:
  "keys_ok b \<Longrightarrow> kinds (nodes (create_and_connect l t c b)) = kinds (nodes b) @ [t]"
  by (simp add: create_and_connect_def nodes_connect kinds_create_node)

lemma length_create_and_connect:
  "keys_ok b \<Longrightarrow> length (nodes (create_and_connect l t c b)) = Suc (length (nodes b))"
  by (simp add: create_and_connect_def nodes_connect nodes_create_node)

lemma edge_count_create_and_connect_le:
  "keys_ok b \<Longrightarrow>
     edge_count (nodes (create_and_connect l t c b))
       \<le> edge_count (nodes b) + length (current_exits b)"
  using edge_count_fold_add_edge_le
    [of "current_node_id b" "[]" "current_exits b" "snd (create_node l t c b)"]
  by (simp add: create_and_connect_def nodes_connect edge_count_create_node)

lemma wf_exits_keys:
  "wf b \<Longrightarrow> set (current_exits b) \<subseteq> fst ` set (nodes (snd (create_node l t c b)))"
proof -
  assume w: "wf b"
  then have k: "keys_ok (snd (create_node l t c b))"
    by (simp add: wf_def keys_ok_create_node)
  from w have "\<forall>e \<in> set (current_exits b). e < current_node_id b"
    by (simp add: wf_def list_all_iff)
  then show ?thesis
    by (auto simp: keys_ok_mem [OF k])
qed

lemma wf_new_key:
  "wf b \<Longrightarrow> current_node_id b \<in> fst ` set (nodes (snd (create_node l t c b)))"
  by (simp add: wf_def keys_ok_mem [OF keys_ok_create_node])

lemma edge_count_create_and_connect:
  "wf b \<Longrightarrow>
     edge_count (nodes (create_and_connect l t c b))
       = edge_count (nodes b) + length (current_exits b)"
proof -
  assume w: "wf b"
  then have k: "keys_ok b" by (simp add: wf_def)
  let ?b = "snd (create_node l t c b)"
  have "edge_count (nodes (fold (\<lambda>e. add_edge e (current_node_id b) []) (current_exits b) ?b))
          = edge_count (nodes ?b) + length (current_exits b)"
    by (rule edge_count_fold_add_edge [OF wf_exits_keys [OF w] wf_new_key [OF w]])
  then show ?thesis
    by (simp add: create_and_connect_def nodes_connect edge_count_create_node [OF k])
qed

lemma successors_of_create_and_connect:
  "wf b \<Longrightarrow>
     successors_of (nodes (create_and_connect l t c b)) i =
       (if i \<in> set (current_exits b)
        then successors_of (nodes b) i @ [(current_node_id b, [])]
        else successors_of (nodes b) i)"
proof -
  assume w: "wf b"
  then have k: "keys_ok b" and d: "distinct (current_exits b)" by (simp_all add: wf_def)
  let ?b = "snd (create_node l t c b)"
  have "successors_of (nodes (fold (\<lambda>e. add_edge e (current_node_id b) []) (current_exits b) ?b)) i
          = (if i \<in> set (current_exits b)
             then successors_of (nodes ?b) i @ [(current_node_id b, [])]
             else successors_of (nodes ?b) i)"
    by (rule successors_of_fold_add_edge [OF d wf_exits_keys [OF w] wf_new_key [OF w]])
  then show ?thesis
    by (simp add: create_and_connect_def nodes_connect successors_of_create_node [OF k])
qed


lemma targets_ok_iff:
  "keys_ok b \<Longrightarrow>
     list_all (\<lambda>(i, t, l). t < n) (edge_list (nodes b)) \<longleftrightarrow>
       (\<forall>i t l. (t, l) \<in> set (successors_of (nodes b) i) \<longrightarrow> t < n)"
proof -
  assume "keys_ok b"
  then have d: "distinct (map fst (nodes b))" by (rule keys_ok_distinct)
  have "list_all (\<lambda>(i, t, l). t < n) (edge_list (nodes b)) \<longleftrightarrow>
          (\<forall>i t l. (i, t, l) \<in> set (edge_list (nodes b)) \<longrightarrow> t < n)"
    by (auto simp: list_all_iff)
  then show ?thesis by (simp add: edge_list_iff [OF d])
qed

lemma successors_of_outside:
  "keys_ok b \<Longrightarrow> current_node_id b \<le> i \<Longrightarrow> successors_of (nodes b) i = []"
proof -
  assume "keys_ok b" and "current_node_id b \<le> i"
  then have "i \<notin> fst ` set (nodes b)" by (simp add: keys_ok_mem)
  then have "map_of (nodes b) i = None" by (simp add: map_of_eq_None_iff)
  then show ?thesis by (simp add: successors_of_def)
qed

lemma wf_exits_less: "wf b \<Longrightarrow> e \<in> set (current_exits b) \<Longrightarrow> e < current_node_id b"
  by (simp add: wf_def list_all_iff)

lemma wf_targets_less:
  "wf b \<Longrightarrow> (t, l) \<in> set (successors_of (nodes b) i) \<Longrightarrow> t < current_node_id b"
  using targets_ok_iff [of b "current_node_id b"] by (auto simp: wf_def)

lemma wf_create_and_connect: "wf b \<Longrightarrow> wf (create_and_connect l t c b)"
proof -
  assume w: "wf b"
  then have k: "keys_ok (create_and_connect l t c b)"
    by (simp add: wf_def keys_ok_create_and_connect)
  have "t' < Suc (current_node_id b)"
    if "(t', l') \<in> set (successors_of (nodes (create_and_connect l t c b)) i)" for t' l' i
    using that wf_targets_less [OF w, of t' l' i]
    by (auto simp: successors_of_create_and_connect [OF w] split: if_splits)
  then have "list_all (\<lambda>(i, t, l). t < Suc (current_node_id b))
               (edge_list (nodes (create_and_connect l t c b)))"
    by (subst targets_ok_iff [OF k]) blast
  then show ?thesis using k by (simp add: wf_def)
qed

lemma wf_clear_exits: "wf b \<Longrightarrow> wf (b\<lparr>current_exits := []\<rparr>)"
  by (simp add: wf_def keys_ok_def)

subsection \<open>Statements that create one node\<close>

lemma visit_Assign:
  "visit (Assign targets val) b =
     create_and_connect (join '' = '' targets @ '' = '' @ val) ''process'' None b"
  by (simp add: create_and_connect_def case_prod_beta)

lemma visit_AugAssign:
  "visit (AugAssign target op val) b =
     create_and_connect (target @ '' '' @ op @ ''= '' @ val) ''process'' None b"
  by (simp add: create_and_connect_def case_prod_beta)

lemma visit_Expr_call:
  "visit (Expr (ECall func args)) b =
     create_and_connect (unparse (ECall func args))
       (call_node_type (unparse (ECall func args))) None b"
  by (simp add: create_and_connect_def case_prod_beta Let_def)

lemma visit_Expr_other:
  "visit (Expr (EOther text)) b = create_and_connect text ''process'' None b"
  by (simp add: create_and_connect_def case_prod_beta)

lemma visit_Return:
  "visit (Return v) b =
     (create_and_connect (case v of Some e \<Rightarrow> ''return '' @ e | None \<Rightarrow> ''return'')
        ''output'' None b)\<lparr>current_exits := []\<rparr>"
  by (simp add: create_and_connect_def case_prod_beta)

lemma visit_Other:
  "visit (Other text kind children) b =
     visit_statements children
       (case text of
          Some stmt_text \<Rightarrow>
            if length (strip stmt_text) > 0
            then create_and_connect stmt_text ''process'' None b else b
        | None \<Rightarrow> create_and_connect (''# '' @ kind) ''process'' None b)"
  by (simp add: create_and_connect_def case_prod_beta Let_def split: option.splits)

lemma creates_no_node_visit: "creates_no_node t \<Longrightarrow> visit t b = b"
proof (induction t arbitrary: b)
  case (Other unparsed kind children)
  have "visit_statements cs b = b" if "\<And>c b. c \<in> set cs \<Longrightarrow> visit c b = b" for cs
    using that by (induction cs) auto
  then have "visit_statements children b = b"
    using Other by (auto simp: list_all_iff)
  then show ?case
    using Other.prems by (auto simp: visit_Other split: option.splits)
qed simp_all

lemma creates_no_node_visit_statements:
  "list_all creates_no_node ts \<Longrightarrow> visit_statements ts b = b"
  by (induction ts) (auto simp: creates_no_node_visit)

lemma one_node_stmt_visit:
  assumes "one_node_stmt s"
  shows "\<exists>l t. \<forall>b. visit s b = create_and_connect l t None b"
proof (cases s)
  case (Assign targets val)
  show ?thesis unfolding Assign visit_Assign by blast
next
  case (AugAssign target op val)
  show ?thesis unfolding AugAssign visit_AugAssign by blast
next
  case (Expr e)
  show ?thesis
  proof (cases e)
    case (ECall func args)
    show ?thesis unfolding Expr ECall visit_Expr_call by blast
  next
    case (EOther x)
    show ?thesis unfolding Expr EOther visit_Expr_other by blast
  qed
next
  case (Other unparsed kind children)
  with assms have c: "list_all creates_no_node children" by simp
  show ?thesis
  proof (cases unparsed)
    case None
    have "visit s b = create_and_connect (''# '' @ kind) ''process'' None b" for b
      unfolding Other None visit_Other
      by (simp add: creates_no_node_visit_statements [OF c])
    then show ?thesis by blast
  next
    case (Some stmt_text)
    with assms Other have "length (strip stmt_text) > 0" by simp
    then have "visit s b = create_and_connect stmt_text ''process'' None b" for b
      unfolding Other Some visit_Other
      by (simp add: creates_no_node_visit_statements [OF c])
    then show ?thesis by blast
  qed
qed (use assms in simp_all)

declare visit.simps [simp del]

lemma one_node_chain:
  "wf b \<Longrightarrow> list_all one_node_stmt ss \<Longrightarrow> ss \<noteq> [] \<Longrightarrow>
     wf (visit_statements ss b)
     \<and> current_node_id (visit_statements ss b) = current_node_id b + length ss
     \<and> length (nodes (visit_statements ss b)) = length (nodes b) + length ss
     \<and> current_exits (visit_statements ss b) = [current_node_id b + length ss - 1]
     \<and> edge_count (nodes (visit_statements ss b)) =
         edge_count (nodes b) + length (current_exits b) + (length ss - 1)
     \<and> (\<forall>i. successors_of (nodes (visit_statements ss b)) i =
           (if i < current_node_id b
            then (if i \<in> set (current_exits b)
                  then successors_of (nodes b) i @ [(current_node_id b, [])]
                  else successors_of (nodes b) i)
            else if Suc i < current_node_id b + length ss then [(Suc i, [])] else []))"
proof (induction ss arbitrary: b)
  case Nil
  then show ?case by simp
next
  case (Cons s ss)
  from Cons.prems obtain l t where v: "\<And>b. visit s b = create_and_connect l t None b"
    using one_node_stmt_visit [of s] by auto
  let ?b1 = "create_and_connect l t None b"
  have w: "wf b" and k: "keys_ok b" using Cons.prems by (simp_all add: wf_def)
  have w1: "wf ?b1" using w by (rule wf_create_and_connect)
  have out: "successors_of (nodes b) i = []" "i \<notin> set (current_exits b)"
    if "current_node_id b \<le> i" for i
    using that successors_of_outside [OF k] wf_exits_less [OF w, of i] by auto
  show ?case
  proof (cases "ss = []")
    case True
    then show ?thesis
      using w1 out
      by (simp add: v length_create_and_connect [OF k] edge_count_create_and_connect [OF w]
          successors_of_create_and_connect [OF w] not_less)
  next
    case False
    have all: "list_all one_node_stmt ss" using Cons.prems by simp
    note IH = Cons.IH [OF w1 all False]
    have "\<forall>i. successors_of (nodes (visit_statements ss ?b1)) i =
           (if i < current_node_id b
            then (if i \<in> set (current_exits b)
                  then successors_of (nodes b) i @ [(current_node_id b, [])]
                  else successors_of (nodes b) i)
            else if Suc i < current_node_id b + length (s # ss) then [(Suc i, [])] else [])"
    proof
      fix i
      consider "i < current_node_id b" | "i = current_node_id b" | "current_node_id b < i"
        by linarith
      then show "successors_of (nodes (visit_statements ss ?b1)) i =
           (if i < current_node_id b
            then (if i \<in> set (current_exits b)
                  then successors_of (nodes b) i @ [(current_node_id b, [])]
                  else successors_of (nodes b) i)
            else if Suc i < current_node_id b + length (s # ss) then [(Suc i, [])] else [])"
      proof cases
        case 1
        then show ?thesis
          using IH by (simp add: successors_of_create_and_connect [OF w])
      next
        case 2
        then show ?thesis
          using IH False out [of i]
          by (simp add: successors_of_create_and_connect [OF w])
      next
        case 3
        then show ?thesis using IH by simp
      qed
    qed
    then show ?thesis
      using IH False
      by (simp add: v length_create_and_connect [OF k] edge_count_create_and_connect [OF w])
  qed
qed

lemma wf_visit_Return: "wf b \<Longrightarrow> wf (visit (Return v) b)"
  unfolding visit_Return by (intro wf_clear_exits wf_create_and_connect)

lemma contains_prefix: "prefix p s \<Longrightarrow> contains p s"
  by (cases s) auto

lemma lower_append: "lower (a @ b) = lower a @ lower b"
  by (simp add: lower_def)

lemma lower_print: "lower ''print'' = ''print''"
  by code_simp

lemma lower_input: "lower ''input'' = ''input''"
  by code_simp

lemma call_node_type_eq:
  "call_node_type text =
     (if contains ''print'' (lower text) then ''output''
      else if contains ''input'' (lower text) then ''input'' else ''call'')"
  by (simp add: call_node_type_def)

lemma wf_start:
  "wf \<lparr>nodes = [(0, CFGNode_init 0 ''START'' ''start'' None)], current_node_id = 1,
       entry_node = Some 0, current_exits = [0], function_name = None\<rparr>"
  by (simp add: wf_def keys_ok_def edge_list_def CFGNode_init_def)

section \<open>The traversal\<close>

subsection \<open>The compound statements\<close>

lemma visit_hd: "length ts = Suc 0 \<Longrightarrow> visit (hd ts) b = visit_statements ts b"
  by (cases ts) auto

lemma visit_FunctionDef:
  "visit (FunctionDef name args body) b =
     (let b2 = visit_statements body
                 (create_and_connect (''def '' @ name @ ''('' @ join '', '' args @ '')'') ''start''
                    None (b\<lparr>function_name := Some name\<rparr>))
      in if \<not> list_ex is_Return body
         then create_and_connect ''return None'' ''output'' None b2 else b2)"
  by (cases body) (simp_all add: visit.simps create_and_connect_def case_prod_beta Let_def)

lemma visit_If:
  "visit (If test body orelse) b =
     (let d = current_node_id b;
          b2 = visit_statements body
                 ((create_and_connect test ''decision'' (Some test) b)\<lparr>current_exits := [d]\<rparr>);
          b3 = visit_statements orelse (b2\<lparr>current_exits := [d]\<rparr>)
      in b3\<lparr>nodes := AList.map_entry d if_relabel (nodes b3),
            current_exits := set_update (set_update [] (current_exits b2)) (current_exits b3)\<rparr>)"
  by (cases body; cases orelse)
     (simp_all add: visit.simps create_and_connect_def case_prod_beta Let_def visit_hd)

lemma visit_While:
  "visit (While test body orelse) b =
     (let d = current_node_id b;
          b2 = visit_statements body
                 ((create_and_connect test ''decision'' (Some test) b)\<lparr>current_exits := [d]\<rparr>);
          b3 = fold (\<lambda>e. add_edge e d []) (current_exits b2) b2
      in b3\<lparr>current_exits := [d],
            nodes := AList.map_entry d (while_relabel d) (nodes b3)\<rparr>)"
  by (cases body)
     (simp_all add: visit.simps create_and_connect_def case_prod_beta Let_def)

lemma visit_For:
  "visit (For target iter body orelse) b =
     (let d = current_node_id b;
          text = ''for '' @ target @ '' in '' @ iter;
          b2 = visit_statements body
                 ((create_and_connect text ''decision'' (Some text) b)\<lparr>current_exits := [d]\<rparr>);
          b3 = fold (\<lambda>e. add_edge e d []) (current_exits b2) b2
      in b3\<lparr>current_exits := [d]\<rparr>)"
  by (cases body)
     (simp_all add: visit.simps create_and_connect_def case_prod_beta Let_def)

lemma visit_Call:
  "visit (Call func args) b =
     snd (create_node (unparse (ECall func args))
            (if contains ''input'' (lower (unparse (ECall func args))) then ''input'' else ''call'')
            None b)"
  by (simp add: visit.simps Let_def)

subsection \<open>The relabelling steps\<close>

lemma fold_add_successor:
  "fold (\<lambda>(i, l). add_successor i x) es n =
     n\<lparr>successors := successors n @ map (\<lambda>(i, l). (i, x)) es\<rparr>"
  by (induction es arbitrary: n) (auto simp: add_successor_def)

lemma if_split_edges_targets:
  "fst ` set (fst (fold (\<lambda>(successor_id, l) (true_edges, false_edges).
             if l = [] then
               (if length true_edges = 0
                then (true_edges @ [(successor_id, ''True'')], false_edges)
                else (true_edges, false_edges @ [(successor_id, ''False'')]))
             else (true_edges, false_edges)) s acc))
   \<union> fst ` set (snd (fold (\<lambda>(successor_id, l) (true_edges, false_edges).
             if l = [] then
               (if length true_edges = 0
                then (true_edges @ [(successor_id, ''True'')], false_edges)
                else (true_edges, false_edges @ [(successor_id, ''False'')]))
             else (true_edges, false_edges)) s acc))
   \<subseteq> fst ` set s \<union> fst ` set (fst acc) \<union> fst ` set (snd acc)"
proof (induction s arbitrary: acc)
  case Nil
  then show ?case by simp
next
  case (Cons e s)
  obtain i l where e: "e = (i, l)" by (cases e)
  obtain te fe where acc: "acc = (te, fe)" by (cases acc)
  show ?case
    using Cons.IH [of "if l = [] then (if length te = 0 then (te @ [(i, ''True'')], fe)
                                       else (te, fe @ [(i, ''False'')])) else (te, fe)"]
    by (auto simp: e acc split: if_splits)
qed

lemma node_type_if_relabel [simp]: "node_type (if_relabel n) = node_type n"
  by (simp add: if_relabel_def fold_add_successor case_prod_beta Let_def)

lemma label_if_relabel [simp]: "label (if_relabel n) = label n"
  by (simp add: if_relabel_def fold_add_successor case_prod_beta Let_def)

lemma targets_if_relabel:
  "fst ` set (successors (if_relabel n)) \<subseteq> fst ` set (successors n)"
proof -
  have "fst ` set (successors (if_relabel n)) =
          fst ` set (fst (if_split_edges (successors n)))
          \<union> fst ` set (snd (if_split_edges (successors n)))"
    by (force simp: if_relabel_def fold_add_successor case_prod_beta Let_def image_Un)
  then show ?thesis
    using if_split_edges_targets [of "successors n" "([], [])"]
    by (simp add: if_split_edges_def)
qed

lemma node_type_while_relabel [simp]: "node_type (while_relabel d n) = node_type n"
  by (simp add: while_relabel_def)

lemma label_while_relabel [simp]: "label (while_relabel d n) = label n"
  by (simp add: while_relabel_def)

lemma targets_while_relabel:
  "fst ` set (successors (while_relabel d n)) \<subseteq> fst ` set (successors n)"
proof -
  have "map fst (successors (while_relabel d n)) = map fst (successors n)"
    by (auto simp: while_relabel_def)
  then have "set (map fst (successors (while_relabel d n))) = set (map fst (successors n))"
    by simp
  then show ?thesis by (simp only: set_map)
qed

subsection \<open>Invariants of the traversal\<close>

lemma create_and_connect_invariant:
  assumes cr: "\<And>l t c b. P b \<Longrightarrow> P (snd (create_node l t c b))"
    and rt: "\<And>b. P b \<Longrightarrow> R (current_node_id b)"
    and ed: "\<And>f t l b. P b \<Longrightarrow> R t \<Longrightarrow> P (add_edge f t l b)"
    and ex: "\<And>xs b. P b \<Longrightarrow> P (b\<lparr>current_exits := xs\<rparr>)"
  shows "P b \<Longrightarrow> P (create_and_connect l t c b)"
proof -
  have fe: "P (fold (\<lambda>e. add_edge e t l) es b)" if "P b" "R t" for t l es b
    using that by (induction es arbitrary: b) (auto intro: ed)
  show "P b \<Longrightarrow> P (create_and_connect l t c b)"
    unfolding create_and_connect_def connect_exits_to_node_def
    by (auto intro!: ex fe cr rt)
qed

lemma visit_statements_invariant:
  "(\<And>t b. t \<in> set ts \<Longrightarrow> P b \<Longrightarrow> P (visit t b)) \<Longrightarrow> P b \<Longrightarrow> P (visit_statements ts b)"
  by (induction ts arbitrary: b) auto

lemma visit_invariant:
  assumes cr: "\<And>l t c b. P b \<Longrightarrow> P (snd (create_node l t c b))"
    and rt: "\<And>b. P b \<Longrightarrow> R (current_node_id b)"
    and ed: "\<And>f t l b. P b \<Longrightarrow> R t \<Longrightarrow> P (add_edge f t l b)"
    and ex: "\<And>xs b. P b \<Longrightarrow> P (b\<lparr>current_exits := xs\<rparr>)"
    and fn: "\<And>x b. P b \<Longrightarrow> P (b\<lparr>function_name := x\<rparr>)"
    and rl: "\<And>d f b. P b \<Longrightarrow> R d \<Longrightarrow> (\<And>n. node_type (f n) = node_type n) \<Longrightarrow>
               (\<And>n. fst ` set (successors (f n)) \<subseteq> fst ` set (successors n)) \<Longrightarrow>
               P (b\<lparr>nodes := AList.map_entry d f (nodes b)\<rparr>)"
  shows "P b \<Longrightarrow> P (visit t b)"
proof (induction t arbitrary: b)
  have fe: "P (fold (\<lambda>e. add_edge e t l) es b)" if "P b" "R t" for t l es b
    using that by (induction es arbitrary: b) (auto intro: ed)
  have cc: "P (create_and_connect l t c b)" if "P b" for l t c b
    unfolding create_and_connect_def connect_exits_to_node_def
    using that by (auto intro!: ex fe cr rt)
  have st: "P (visit_statements ts b)"
    if "\<And>t b. t \<in> set ts \<Longrightarrow> P b \<Longrightarrow> P (visit t b)" "P b" for ts b
    using that by (induction ts arbitrary: b) auto
  {
    case (FunctionDef name args body)
    then show ?case
      unfolding visit_FunctionDef Let_def by (auto intro!: cc st fn)
  next
    case (If test body orelse)
    have 1: "P ((create_and_connect test ''decision'' (Some test) b)
                 \<lparr>current_exits := [current_node_id b]\<rparr>)"
      using If.prems by (intro ex cc)
    have 2: "P (visit_statements body ((create_and_connect test ''decision'' (Some test) b)
                 \<lparr>current_exits := [current_node_id b]\<rparr>))"
      using 1 If.IH(1) by (intro st)
    have 3: "P (visit_statements orelse ((visit_statements body
               ((create_and_connect test ''decision'' (Some test) b)
                 \<lparr>current_exits := [current_node_id b]\<rparr>))\<lparr>current_exits := [current_node_id b]\<rparr>))"
    proof (rule st)
      show "P (visit t b)" if "t \<in> set orelse" "P b" for t b
        using that If.IH(2) by blast
      show "P ((visit_statements body
               ((create_and_connect test ''decision'' (Some test) b)
                 \<lparr>current_exits := [current_node_id b]\<rparr>))\<lparr>current_exits := [current_node_id b]\<rparr>)"
        using 2 by (rule ex)
    qed
    have r: "R (current_node_id b)" using If.prems by (rule rt)
    show ?case
      unfolding visit_If Let_def
      by (intro ex rl 3 r node_type_if_relabel targets_if_relabel)
  next
    case (While test body orelse)
    have r: "R (current_node_id b)" using While.prems by (rule rt)
    have 1: "P ((create_and_connect test ''decision'' (Some test) b)
                 \<lparr>current_exits := [current_node_id b]\<rparr>)"
      using While.prems by (intro ex cc)
    have 2: "P (visit_statements body ((create_and_connect test ''decision'' (Some test) b)
                 \<lparr>current_exits := [current_node_id b]\<rparr>))"
      using 1 While.IH(1) by (intro st)
    let ?b3 = "(fold (\<lambda>e. add_edge e (current_node_id b) [])
                 (current_exits (visit_statements body
                    ((create_and_connect test ''decision'' (Some test) b)
                       \<lparr>current_exits := [current_node_id b]\<rparr>)))
                 (visit_statements body ((create_and_connect test ''decision'' (Some test) b)
                       \<lparr>current_exits := [current_node_id b]\<rparr>)))
               \<lparr>current_exits := [current_node_id b]\<rparr>"
    have 3: "P ?b3" using 2 r by (intro ex fe)
    have "P (?b3\<lparr>nodes := AList.map_entry (current_node_id b)
                 (while_relabel (current_node_id b)) (nodes ?b3)\<rparr>)"
      by (intro rl 3 r node_type_while_relabel targets_while_relabel)
    then show ?case
      unfolding visit_While Let_def by simp
  next
    case (For target iter body orelse)
    have r: "R (current_node_id b)" using For.prems by (rule rt)
    show ?case
      unfolding visit_For Let_def
      using For r by (auto intro!: ex fe st cc)
  next
    case (Return v)
    then show ?case unfolding visit_Return by (auto intro!: ex cc)
  next
    case (Assign targets val)
    then show ?case unfolding visit_Assign by (auto intro!: cc)
  next
    case (AugAssign target op val)
    then show ?case unfolding visit_AugAssign by (auto intro!: cc)
  next
    case (Expr e)
    then show ?case
      by (cases e) (auto simp: visit_Expr_call visit_Expr_other intro!: cc)
  next
    case (Call func args)
    then show ?case unfolding visit_Call by (auto intro!: cr)
  next
    case (Other unparsed kind children)
    then show ?case
      unfolding visit_Other by (auto intro!: st cc split: option.splits)
  }
qed


subsection \<open>The ids stay dense\<close>

lemma keys_ok_exits [simp]: "keys_ok (b\<lparr>current_exits := xs\<rparr>) = keys_ok b"
  by (simp add: keys_ok_def)

lemma keys_ok_function_name [simp]: "keys_ok (b\<lparr>function_name := x\<rparr>) = keys_ok b"
  by (simp add: keys_ok_def)

lemma keys_ok_entry_node [simp]: "keys_ok (b\<lparr>entry_node := x\<rparr>) = keys_ok b"
  by (simp add: keys_ok_def)

lemma keys_ok_map_entry [simp]:
  "keys_ok (b\<lparr>nodes := AList.map_entry d f (nodes b)\<rparr>) = keys_ok b"
  by (simp add: keys_ok_def)

lemma keys_ok_visit: "keys_ok b \<Longrightarrow> keys_ok (visit t b)"
  by (rule visit_invariant [where P = keys_ok and R = "\<lambda>t. True"])
     (simp_all add: keys_ok_create_node)

lemma keys_ok_visit_statements: "keys_ok b \<Longrightarrow> keys_ok (visit_statements ts b)"
  by (rule visit_statements_invariant [where P = keys_ok]) (simp_all add: keys_ok_visit)

subsection \<open>The kinds of the nodes created\<close>

lemma kinds_visit_statements:
  "(\<And>t b. t \<in> set ts \<Longrightarrow> keys_ok b \<Longrightarrow>
       kinds (nodes (visit t b)) = kinds (nodes b) @ node_kinds t) \<Longrightarrow>
   keys_ok b \<Longrightarrow>
     kinds (nodes (visit_statements ts b)) = kinds (nodes b) @ concat (map node_kinds ts)"
proof (induction ts arbitrary: b)
  case Nil
  then show ?case by simp
next
  case (Cons t ts)
  have "kinds (nodes (visit_statements ts (visit t b))) =
          kinds (nodes (visit t b)) @ concat (map node_kinds ts)"
    using Cons.prems by (intro Cons.IH) (auto simp: keys_ok_visit)
  then show ?case using Cons.prems by simp
qed

lemma kinds_visit:
  "keys_ok b \<Longrightarrow> kinds (nodes (visit t b)) = kinds (nodes b) @ node_kinds t"
proof (induction t arbitrary: b)
  case (FunctionDef name args body)
  let ?b1 = "create_and_connect (''def '' @ name @ ''('' @ join '', '' args @ '')'') ''start''
               None (b\<lparr>function_name := Some name\<rparr>)"
  have k1: "keys_ok ?b1" using FunctionDef.prems by (simp add: keys_ok_create_and_connect)
  have "kinds (nodes (visit_statements body ?b1)) =
          kinds (nodes ?b1) @ concat (map node_kinds body)"
    using FunctionDef.IH k1 by (intro kinds_visit_statements) auto
  then show ?case
    unfolding visit_FunctionDef Let_def
    using FunctionDef.prems keys_ok_visit_statements [OF k1, of body]
    by (simp add: kinds_create_and_connect)
next
  case (If test body orelse)
  let ?b1 = "(create_and_connect test ''decision'' (Some test) b)
               \<lparr>current_exits := [current_node_id b]\<rparr>"
  let ?b2 = "visit_statements body ?b1"
  let ?b2' = "?b2\<lparr>current_exits := [current_node_id b]\<rparr>"
  have k1: "keys_ok ?b1" using If.prems by (simp add: keys_ok_create_and_connect)
  then have k2: "keys_ok ?b2'" by (simp add: keys_ok_visit_statements)
  have 2: "kinds (nodes ?b2) = kinds (nodes ?b1) @ concat (map node_kinds body)"
    using If.IH(1) k1 by (intro kinds_visit_statements) auto
  have 3: "kinds (nodes (visit_statements orelse ?b2')) =
             kinds (nodes ?b2') @ concat (map node_kinds orelse)"
    using If.IH(2) k2 by (intro kinds_visit_statements) auto
  show ?case
    unfolding visit_If Let_def
    using If.prems 2 3
    by (simp add: kinds_map_entry kinds_create_and_connect)
next
  case (While test body orelse)
  let ?b1 = "(create_and_connect test ''decision'' (Some test) b)
               \<lparr>current_exits := [current_node_id b]\<rparr>"
  have k1: "keys_ok ?b1" using While.prems by (simp add: keys_ok_create_and_connect)
  have 2: "kinds (nodes (visit_statements body ?b1)) =
             kinds (nodes ?b1) @ concat (map node_kinds body)"
    using While.IH(1) k1 by (intro kinds_visit_statements) auto
  show ?case
    unfolding visit_While Let_def
    using While.prems 2
    by (simp add: kinds_map_entry kinds_create_and_connect)
next
  case (For target iter body orelse)
  let ?b1 = "(create_and_connect (''for '' @ target @ '' in '' @ iter) ''decision''
                (Some (''for '' @ target @ '' in '' @ iter)) b)
               \<lparr>current_exits := [current_node_id b]\<rparr>"
  have k1: "keys_ok ?b1" using For.prems by (simp add: keys_ok_create_and_connect)
  have 2: "kinds (nodes (visit_statements body ?b1)) =
             kinds (nodes ?b1) @ concat (map node_kinds body)"
    using For.IH(1) k1 by (intro kinds_visit_statements) auto
  show ?case
    unfolding visit_For Let_def
    using For.prems 2
    by (simp add: kinds_create_and_connect)
next
  case (Return v)
  then show ?case by (simp add: visit_Return kinds_create_and_connect)
next
  case (Assign targets val)
  then show ?case by (simp add: visit_Assign kinds_create_and_connect)
next
  case (AugAssign target op val)
  then show ?case by (simp add: visit_AugAssign kinds_create_and_connect)
next
  case (Expr e)
  then show ?case
    by (cases e) (simp_all add: visit_Expr_call visit_Expr_other kinds_create_and_connect)
next
  case (Call func args)
  then show ?case by (simp add: visit_Call kinds_create_node)
next
  case (Other unparsed kind children)
  let ?b1 = "case unparsed of
          Some stmt_text \<Rightarrow>
            if length (strip stmt_text) > 0
            then create_and_connect stmt_text ''process'' None b else b
        | None \<Rightarrow> create_and_connect (''# '' @ kind) ''process'' None b"
  have k1: "keys_ok ?b1"
    using Other.prems by (simp add: keys_ok_create_and_connect split: option.splits)
  have "kinds (nodes (visit_statements children ?b1)) =
          kinds (nodes ?b1) @ concat (map node_kinds children)"
    using Other.IH k1 by (intro kinds_visit_statements) auto
  then show ?case
    unfolding visit_Other
    using Other.prems by (simp add: kinds_create_and_connect split: option.splits)
qed


subsection \<open>No edge into the first node\<close>

lemma edge_list_create_node:
  "keys_ok b \<Longrightarrow> edge_list (nodes (snd (create_node l t c b))) = edge_list (nodes b)"
  by (simp add: nodes_create_node edge_list_def CFGNode_init_def)

lemma incoming_add_edge:
  assumes "keys_ok b" and "incoming (nodes b) k = []" and "t \<noteq> k"
  shows "incoming (nodes (add_edge f t l b)) k = []"
proof (cases "f \<in> fst ` set (nodes b) \<and> t \<in> fst ` set (nodes b)")
  case True
  have d: "distinct (map fst (nodes b))" using assms(1) by (rule keys_ok_distinct)
  then have d': "distinct (map fst (nodes (add_edge f t l b)))" by simp
  show ?thesis
    using assms(2,3) True
    by (auto simp: incoming_Nil_iff [OF d] incoming_Nil_iff [OF d'] successors_of_add_edge)
next
  case False
  then show ?thesis using assms(2) by (simp add: add_edge_skip)
qed

lemma incoming_map_entry:
  assumes "keys_ok b" and "incoming (nodes b) k = []"
    and "\<And>n. fst ` set (successors (f n)) \<subseteq> fst ` set (successors n)"
  shows "incoming (AList.map_entry d f (nodes b)) k = []"
proof -
  have dist: "distinct (map fst (nodes b))" using assms(1) by (rule keys_ok_distinct)
  then have dist': "distinct (map fst (AList.map_entry d f (nodes b)))" by simp
  have "k \<notin> fst ` set (successors_of (AList.map_entry d f (nodes b)) i)" for i
  proof (cases "i = d")
    case True
    show ?thesis
    proof (cases "map_of (nodes b) d")
      case None
      then show ?thesis by (simp add: successors_of_map_entry True)
    next
      case (Some n)
      then have "successors_of (nodes b) d = successors n" by (simp add: successors_of_def)
      then have "k \<notin> fst ` set (successors n)"
        using assms(2) incoming_Nil_iff [OF dist, of k] by metis
      then show ?thesis using assms(3) [of n] Some by (auto simp: successors_of_map_entry True)
    qed
  next
    case False
    then show ?thesis
      using assms(2) incoming_Nil_iff [OF dist, of k] by (simp add: successors_of_map_entry)
  qed
  then show ?thesis by (simp add: incoming_Nil_iff [OF dist'])
qed

lemma no_edge_into_first_visit:
  "keys_ok b \<and> 0 < current_node_id b \<and> incoming (nodes b) 0 = [] \<Longrightarrow>
     keys_ok (visit t b) \<and> 0 < current_node_id (visit t b) \<and> incoming (nodes (visit t b)) 0 = []"
  by (rule visit_invariant
        [where P = "\<lambda>b. keys_ok b \<and> 0 < current_node_id b \<and> incoming (nodes b) 0 = []"
           and R = "\<lambda>t. 0 < t"])
     (simp_all add: keys_ok_create_node incoming_def edge_list_create_node
        incoming_add_edge [unfolded incoming_def] incoming_map_entry [unfolded incoming_def])

lemma no_edge_into_first_visit_statements:
  "keys_ok b \<and> 0 < current_node_id b \<and> incoming (nodes b) 0 = [] \<Longrightarrow>
     keys_ok (visit_statements ts b) \<and> 0 < current_node_id (visit_statements ts b)
     \<and> incoming (nodes (visit_statements ts b)) 0 = []"
  by (rule visit_statements_invariant
        [where P = "\<lambda>b. keys_ok b \<and> 0 < current_node_id b \<and> incoming (nodes b) 0 = []"])
     (simp_all add: no_edge_into_first_visit)

lemma no_edge_into_first_create_and_connect:
  "keys_ok b \<and> 0 < current_node_id b \<and> incoming (nodes b) 0 = [] \<Longrightarrow>
     keys_ok (create_and_connect l t c b) \<and> 0 < current_node_id (create_and_connect l t c b)
     \<and> incoming (nodes (create_and_connect l t c b)) 0 = []"
  by (rule create_and_connect_invariant
        [where P = "\<lambda>b. keys_ok b \<and> 0 < current_node_id b \<and> incoming (nodes b) 0 = []"
           and R = "\<lambda>t. 0 < t"])
     (simp_all add: keys_ok_create_node incoming_def edge_list_create_node
        incoming_add_edge [unfolded incoming_def])

subsection \<open>The whole program\<close>

lemma visit_Module_eq:
  "visit_Module body b =
     create_and_connect ''END'' ''end'' None
       (visit_statements body
          ((snd (create_node ''START'' ''start'' None b))
             \<lparr>entry_node := Some (current_node_id b), current_exits := [current_node_id b]\<rparr>))"
  by (cases body) (simp_all add: visit_Module_def create_and_connect_def case_prod_beta Let_def)

lemma keys_ok_init: "keys_ok FlowchartCFGBuilder_init"
  by (simp add: keys_ok_def FlowchartCFGBuilder_init_def)

lemma no_def_count: "\<not> has_def t \<Longrightarrow> all_function_defs t = 0"
proof (induction t)
  case (Other unparsed kind children)
  then show ?case by (auto simp: list_ex_iff)
qed (auto simp: list_ex_iff)

lemma no_def_count_list: "\<not> list_ex has_def ts \<Longrightarrow> sum_list (map all_function_defs ts) = 0"
  by (induction ts) (auto simp: no_def_count)

lemma start_count_list:
  "(\<And>t. t \<in> set ts \<Longrightarrow> defs_in_reach t \<Longrightarrow>
       length (filter (\<lambda>k. k = ''start'') (node_kinds t)) = all_function_defs t) \<Longrightarrow>
   list_all defs_in_reach ts \<Longrightarrow>
   length (filter (\<lambda>k. k = ''start'') (concat (map node_kinds ts))) =
     sum_list (map all_function_defs ts)"
  by (induction ts) auto

lemma start_count_node_kinds:
  "defs_in_reach t \<Longrightarrow>
     length (filter (\<lambda>k. k = ''start'') (node_kinds t)) = all_function_defs t"
proof (induction t)
  case (FunctionDef name args body)
  then show ?case using start_count_list [of body] by simp
next
  case (If test body orelse)
  then show ?case using start_count_list [of body] start_count_list [of orelse] by simp
next
  case (While test body orelse)
  then show ?case using start_count_list [of body] no_def_count_list [of orelse] by simp
next
  case (For target iter body orelse)
  then show ?case using start_count_list [of body] no_def_count_list [of orelse] by simp
next
  case (Expr e)
  then show ?case by (cases e) (simp_all add: call_node_type_def)
next
  case (Other unparsed kind children)
  then show ?case using start_count_list [of children] by (simp split: option.splits)
qed simp_all

lemma program_state:
  "keys_ok ((snd (create_node ''START'' ''start'' None FlowchartCFGBuilder_init))
             \<lparr>entry_node := Some (current_node_id FlowchartCFGBuilder_init),
                current_exits := [current_node_id FlowchartCFGBuilder_init]\<rparr>)"
  "kinds (nodes ((snd (create_node ''START'' ''start'' None FlowchartCFGBuilder_init))
             \<lparr>entry_node := Some (current_node_id FlowchartCFGBuilder_init),
                current_exits := [current_node_id FlowchartCFGBuilder_init]\<rparr>)) = [''start'']"
  "edge_list (nodes ((snd (create_node ''START'' ''start'' None FlowchartCFGBuilder_init))
             \<lparr>entry_node := Some (current_node_id FlowchartCFGBuilder_init),
                current_exits := [current_node_id FlowchartCFGBuilder_init]\<rparr>)) = []"
  "current_node_id ((snd (create_node ''START'' ''start'' None FlowchartCFGBuilder_init))
             \<lparr>entry_node := Some (current_node_id FlowchartCFGBuilder_init),
                current_exits := [current_node_id FlowchartCFGBuilder_init]\<rparr>) = 1"
  by (simp_all add: keys_ok_create_node keys_ok_init kinds_create_node [OF keys_ok_init]
      edge_list_create_node [OF keys_ok_init])
     (simp_all add: FlowchartCFGBuilder_init_def kinds_def edge_list_def)

lemma kinds_program:
  "kinds (create_flowchart_cfg (Some body)) = ''start'' # concat (map node_kinds body) @ [''end'']"
proof -
  let ?b0 = "(snd (create_node ''START'' ''start'' None FlowchartCFGBuilder_init))
             \<lparr>entry_node := Some (current_node_id FlowchartCFGBuilder_init),
                current_exits := [current_node_id FlowchartCFGBuilder_init]\<rparr>"
  have k1: "keys_ok (visit_statements body ?b0)"
    using program_state(1) by (rule keys_ok_visit_statements)
  have "kinds (nodes (visit_statements body ?b0)) = ''start'' # concat (map node_kinds body)"
    using kinds_visit_statements [of body ?b0] kinds_visit program_state(1,2) by simp
  then show ?thesis
    by (simp add: create_flowchart_cfg_def visit_Module_eq kinds_create_and_connect [OF k1])
qed

subsection \<open>Programs without decisions\<close>

lemma decision_count_kinds:
  "length (filter (\<lambda>(i, n). node_type n = d) g) = length (filter (\<lambda>k. k = d) (kinds g))"
  by (induction g) (auto simp: kinds_def)

lemma decision_free_statements:
  "(\<And>t b. t \<in> set ts \<Longrightarrow> keys_ok b \<Longrightarrow> length (current_exits b) \<le> 1 \<Longrightarrow>
       ''decision'' \<notin> set (node_kinds t) \<Longrightarrow>
       length (current_exits (visit t b)) \<le> 1
       \<and> edge_count (nodes (visit t b)) + current_node_id b
           \<le> edge_count (nodes b) + current_node_id (visit t b)) \<Longrightarrow>
   keys_ok b \<Longrightarrow> length (current_exits b) \<le> 1 \<Longrightarrow>
   ''decision'' \<notin> set (concat (map node_kinds ts)) \<Longrightarrow>
     length (current_exits (visit_statements ts b)) \<le> 1
     \<and> edge_count (nodes (visit_statements ts b)) + current_node_id b
         \<le> edge_count (nodes b) + current_node_id (visit_statements ts b)"
proof (induction ts arbitrary: b)
  case Nil
  then show ?case by simp
next
  case (Cons t ts)
  have t: "length (current_exits (visit t b)) \<le> 1
       \<and> edge_count (nodes (visit t b)) + current_node_id b
           \<le> edge_count (nodes b) + current_node_id (visit t b)"
    using Cons.prems by (intro Cons.prems(1)) auto
  have "length (current_exits (visit_statements ts (visit t b))) \<le> 1
     \<and> edge_count (nodes (visit_statements ts (visit t b))) + current_node_id (visit t b)
         \<le> edge_count (nodes (visit t b)) + current_node_id (visit_statements ts (visit t b))"
    using Cons.prems t by (intro Cons.IH) (auto simp: keys_ok_visit)
  then show ?case using t by simp
qed

lemma decision_free_create_and_connect:
  "keys_ok b \<Longrightarrow> length (current_exits b) \<le> 1 \<Longrightarrow>
     edge_count (nodes (create_and_connect l t c b)) \<le> Suc (edge_count (nodes b))"
  using edge_count_create_and_connect_le [of b l t c] by simp

lemma decision_free_visit:
  "keys_ok b \<Longrightarrow> length (current_exits b) \<le> 1 \<Longrightarrow> ''decision'' \<notin> set (node_kinds t) \<Longrightarrow>
     length (current_exits (visit t b)) \<le> 1
     \<and> edge_count (nodes (visit t b)) + current_node_id b
         \<le> edge_count (nodes b) + current_node_id (visit t b)"
proof (induction t arbitrary: b)
  case (FunctionDef name args body)
  let ?b1 = "create_and_connect (''def '' @ name @ ''('' @ join '', '' args @ '')'') ''start''
               None (b\<lparr>function_name := Some name\<rparr>)"
  let ?b2 = "visit_statements body ?b1"
  have k1: "keys_ok ?b1" using FunctionDef.prems by (simp add: keys_ok_create_and_connect)
  have e1: "edge_count (nodes ?b1) \<le> Suc (edge_count (nodes b))"
    using decision_free_create_and_connect [of "b\<lparr>function_name := Some name\<rparr>"]
      FunctionDef.prems by simp
  have 2: "length (current_exits ?b2) \<le> 1
     \<and> edge_count (nodes ?b2) + current_node_id ?b1
         \<le> edge_count (nodes ?b1) + current_node_id ?b2"
    using FunctionDef.IH FunctionDef.prems k1
    by (intro decision_free_statements) auto
  have k2: "keys_ok ?b2" using k1 by (rule keys_ok_visit_statements)
  have e3: "edge_count (nodes (create_and_connect ''return None'' ''output'' None ?b2))
              \<le> Suc (edge_count (nodes ?b2))"
    using decision_free_create_and_connect [OF k2] 2 by simp
  show ?case
    unfolding visit_FunctionDef Let_def
    using e1 2 e3 by simp
next
  case (Return v)
  then show ?case
    using decision_free_create_and_connect [of b]
    by (simp add: visit_Return)
next
  case (Assign targets val)
  then show ?case
    using decision_free_create_and_connect [of b] by (simp add: visit_Assign)
next
  case (AugAssign target op val)
  then show ?case
    using decision_free_create_and_connect [of b] by (simp add: visit_AugAssign)
next
  case (Expr e)
  then show ?case
    using decision_free_create_and_connect [of b]
    by (cases e) (simp_all add: visit_Expr_call visit_Expr_other)
next
  case (Call func args)
  then show ?case by (simp add: visit_Call edge_count_create_node)
next
  case (Other unparsed kind children)
  let ?b1 = "case unparsed of
          Some stmt_text \<Rightarrow>
            if length (strip stmt_text) > 0
            then create_and_connect stmt_text ''process'' None b else b
        | None \<Rightarrow> create_and_connect (''# '' @ kind) ''process'' None b"
  let ?b2 = "visit_statements children ?b1"
  have k1: "keys_ok ?b1"
    using Other.prems by (simp add: keys_ok_create_and_connect split: option.splits)
  have x1: "length (current_exits ?b1) \<le> 1"
    using Other.prems by (simp split: option.splits)
  have e1: "edge_count (nodes ?b1) + current_node_id b
              \<le> edge_count (nodes b) + current_node_id ?b1"
    using decision_free_create_and_connect [of b] Other.prems
    by (simp split: option.splits)
  have 2: "length (current_exits ?b2) \<le> 1
     \<and> edge_count (nodes ?b2) + current_node_id ?b1
         \<le> edge_count (nodes ?b1) + current_node_id ?b2"
    using Other.IH Other.prems k1 x1
    by (intro decision_free_statements) (auto split: option.splits)
  show ?case
    unfolding visit_Other
    using e1 2 by simp
qed simp_all

subsection \<open>Well-formedness is kept\<close>

text \<open>
  The builder is well formed when the first statement of a program is visited, and stays
  so from one statement to the next.
\<close>

lemma cur_visit_mono: "c \<le> current_node_id b \<Longrightarrow> c \<le> current_node_id (visit t b)"
  by (rule visit_invariant [where P = "\<lambda>b. c \<le> current_node_id b" and R = "\<lambda>t. True"])
     simp_all

lemma cur_visit_statements_mono:
  "c \<le> current_node_id b \<Longrightarrow> c \<le> current_node_id (visit_statements ts b)"
  by (rule visit_statements_invariant [where P = "\<lambda>b. c \<le> current_node_id b"])
     (simp_all add: cur_visit_mono)

lemma targets_ok_add_edge:
  assumes "keys_ok b"
    and "list_all (\<lambda>(i, t, l). t < current_node_id b) (edge_list (nodes b))"
  shows "list_all (\<lambda>(i, t, l). t < current_node_id b) (edge_list (nodes (add_edge f t l b)))"
proof (cases "f \<in> fst ` set (nodes b) \<and> t \<in> fst ` set (nodes b)")
  case True
  then have t: "t < current_node_id b" using assms(1) by (simp add: keys_ok_mem)
  have k: "keys_ok (add_edge f t l b)" using assms(1) by simp
  show ?thesis
    using assms(2) True t
    unfolding targets_ok_iff [OF k] targets_ok_iff [OF assms(1)]
    by (auto simp: successors_of_add_edge split: if_splits)
next
  case False
  then show ?thesis using assms(2) by (simp add: add_edge_skip)
qed

lemma targets_ok_map_entry:
  assumes "keys_ok b"
    and "list_all (\<lambda>(i, t, l). t < c) (edge_list (nodes b))"
    and "\<And>n. fst ` set (successors (f n)) \<subseteq> fst ` set (successors n)"
  shows "list_all (\<lambda>(i, t, l). t < c) (edge_list (AList.map_entry d f (nodes b)))"
proof -
  let ?b = "b\<lparr>nodes := AList.map_entry d f (nodes b)\<rparr>"
  have k: "keys_ok ?b" using assms(1) by simp
  have old: "t < c" if "(t, l) \<in> set (successors_of (nodes b) i)" for t l i
    using that assms(2) unfolding targets_ok_iff [OF assms(1)] by blast
  have "t < c" if "(t, l) \<in> set (successors_of (AList.map_entry d f (nodes b)) i)" for t l i
  proof (cases "i = d")
    case True
    show ?thesis
    proof (cases "map_of (nodes b) d")
      case None
      then show ?thesis using that by (simp add: successors_of_map_entry True)
    next
      case (Some n)
      then have s: "successors_of (nodes b) d = successors n" by (simp add: successors_of_def)
      from that Some have "t \<in> fst ` set (successors (f n))"
        by (force simp: successors_of_map_entry True)
      then have "t \<in> fst ` set (successors n)" using assms(3) by blast
      then show ?thesis using old [of t _ d] s by auto
    qed
  next
    case False
    then show ?thesis using that old by (simp add: successors_of_map_entry)
  qed
  then have "list_all (\<lambda>(i, t, l). t < c) (edge_list (nodes ?b))"
    by (subst targets_ok_iff [OF k]) auto
  then show ?thesis by simp
qed

lemma targets_ok_visit:
  "keys_ok b \<and> list_all (\<lambda>(i, k, l). k < current_node_id b) (edge_list (nodes b)) \<Longrightarrow>
     keys_ok (visit t b)
     \<and> list_all (\<lambda>(i, k, l). k < current_node_id (visit t b)) (edge_list (nodes (visit t b)))"
proof (rule visit_invariant
        [where P = "\<lambda>b. keys_ok b
                     \<and> list_all (\<lambda>(i, k, l). k < current_node_id b) (edge_list (nodes b))"
           and R = "\<lambda>t. True"], goal_cases)
  case (1 l t c b)
  then have "list_all (\<lambda>(i, k, l). k < Suc (current_node_id b)) (edge_list (nodes b))"
    by (auto simp: list_all_iff)
  with 1 show ?case by (simp add: keys_ok_create_node edge_list_create_node)
next
  case (3 f t l b)
  then show ?case by (simp add: targets_ok_add_edge)
next
  case (6 d f b)
  then show ?case using targets_ok_map_entry [of b "current_node_id b" f d] by simp
qed simp_all

lemma distinct_set_update: "distinct S \<Longrightarrow> distinct (set_update S xs)"
  unfolding set_update_def by (induction xs arbitrary: S) auto

lemma set_set_update: "set (set_update S xs) = set S \<union> set xs"
  unfolding set_update_def by (induction xs arbitrary: S) auto

lemma exits_ok_statements:
  "(\<And>t b. t \<in> set ts \<Longrightarrow>
       distinct (current_exits b) \<and> (\<forall>e \<in> set (current_exits b). e < current_node_id b) \<Longrightarrow>
       distinct (current_exits (visit t b))
       \<and> (\<forall>e \<in> set (current_exits (visit t b)). e < current_node_id (visit t b))) \<Longrightarrow>
   distinct (current_exits b) \<and> (\<forall>e \<in> set (current_exits b). e < current_node_id b) \<Longrightarrow>
     distinct (current_exits (visit_statements ts b))
     \<and> (\<forall>e \<in> set (current_exits (visit_statements ts b)).
           e < current_node_id (visit_statements ts b))"
  by (rule visit_statements_invariant
        [where P = "\<lambda>b. distinct (current_exits b)
                     \<and> (\<forall>e \<in> set (current_exits b). e < current_node_id b)"])

lemma exits_ok_visit:
  "distinct (current_exits b) \<and> (\<forall>e \<in> set (current_exits b). e < current_node_id b) \<Longrightarrow>
     distinct (current_exits (visit t b))
     \<and> (\<forall>e \<in> set (current_exits (visit t b)). e < current_node_id (visit t b))"
proof (induction t arbitrary: b)
  case (FunctionDef name args body)
  let ?b1 = "create_and_connect (''def '' @ name @ ''('' @ join '', '' args @ '')'') ''start''
               None (b\<lparr>function_name := Some name\<rparr>)"
  have "distinct (current_exits (visit_statements body ?b1))
     \<and> (\<forall>e \<in> set (current_exits (visit_statements body ?b1)).
           e < current_node_id (visit_statements body ?b1))"
    using FunctionDef.IH by (intro exits_ok_statements) auto
  then show ?case unfolding visit_FunctionDef Let_def by simp
next
  case (If test body orelse)
  let ?d = "current_node_id b"
  let ?b1 = "(create_and_connect test ''decision'' (Some test) b)\<lparr>current_exits := [?d]\<rparr>"
  let ?b2 = "visit_statements body ?b1"
  let ?b2' = "?b2\<lparr>current_exits := [?d]\<rparr>"
  let ?b3 = "visit_statements orelse ?b2'"
  have 2: "distinct (current_exits ?b2)
     \<and> (\<forall>e \<in> set (current_exits ?b2). e < current_node_id ?b2)"
    using If.IH(1) by (intro exits_ok_statements) auto
  have m2: "Suc ?d \<le> current_node_id ?b2"
    by (intro cur_visit_statements_mono) simp
  have 3: "distinct (current_exits ?b3)
     \<and> (\<forall>e \<in> set (current_exits ?b3). e < current_node_id ?b3)"
    using If.IH(2) m2 by (intro exits_ok_statements) auto
  have m3: "current_node_id ?b2 \<le> current_node_id ?b3"
    by (intro cur_visit_statements_mono) simp
  show ?case
    unfolding visit_If Let_def
    using 2 3 m3
    by (fastforce simp: distinct_set_update set_set_update)
next
  case (While test body orelse)
  let ?d = "current_node_id b"
  let ?b1 = "(create_and_connect test ''decision'' (Some test) b)\<lparr>current_exits := [?d]\<rparr>"
  have "Suc ?d \<le> current_node_id (visit_statements body ?b1)"
    by (intro cur_visit_statements_mono) simp
  then show ?case unfolding visit_While Let_def by simp
next
  case (For target iter body orelse)
  let ?d = "current_node_id b"
  let ?b1 = "(create_and_connect (''for '' @ target @ '' in '' @ iter) ''decision''
                (Some (''for '' @ target @ '' in '' @ iter)) b)\<lparr>current_exits := [?d]\<rparr>"
  have "Suc ?d \<le> current_node_id (visit_statements body ?b1)"
    by (intro cur_visit_statements_mono) simp
  then show ?case unfolding visit_For Let_def by simp
next
  case (Expr e)
  then show ?case by (cases e) (simp_all add: visit_Expr_call visit_Expr_other)
next
  case (Call func args)
  then show ?case by (auto simp: visit_Call)
next
  case (Other unparsed kind children)
  let ?b1 = "case unparsed of
          Some stmt_text \<Rightarrow>
            if length (strip stmt_text) > 0
            then create_and_connect stmt_text ''process'' None b else b
        | None \<Rightarrow> create_and_connect (''# '' @ kind) ''process'' None b"
  have "distinct (current_exits ?b1) \<and> (\<forall>e \<in> set (current_exits ?b1). e < current_node_id ?b1)"
    using Other.prems by (simp split: option.splits)
  then have "distinct (current_exits (visit_statements children ?b1))
     \<and> (\<forall>e \<in> set (current_exits (visit_statements children ?b1)).
           e < current_node_id (visit_statements children ?b1))"
    using Other.IH by (intro exits_ok_statements) auto
  then show ?case unfolding visit_Other by simp
qed (simp_all add: visit_Return visit_Assign visit_AugAssign)

lemma wf_visit: "wf b \<Longrightarrow> wf (visit t b)"
  using targets_ok_visit [of b t] exits_ok_visit [of b t]
  by (simp add: wf_def list_all_iff)

lemma wf_visit_statements: "wf b \<Longrightarrow> wf (visit_statements ts b)"
  by (rule visit_statements_invariant [where P = wf]) (simp_all add: wf_visit)

lemma wf_program_start:
  "wf ((snd (create_node ''START'' ''start'' None FlowchartCFGBuilder_init))
        \<lparr>entry_node := Some (current_node_id FlowchartCFGBuilder_init),
           current_exits := [current_node_id FlowchartCFGBuilder_init]\<rparr>)"
  using program_state by (simp add: wf_def)

subsection \<open>Edges into a node that exists already\<close>

text \<open>
  Every edge the traversal adds leads to a node created during the traversal, so the set
  of nodes with an edge into an older node does not change. The Start node of a function
  definition therefore keeps the incoming edges it got from the frontier, and gets no
  other.
\<close>

lemma incoming_set:
  assumes d: "distinct (map fst g)"
  shows "set (incoming g k) = {i. k \<in> fst ` set (successors_of g i)}"
proof -
  have "i \<in> set (incoming g k) \<longleftrightarrow> (\<exists>l. (i, k, l) \<in> set (edge_list g))" for i
    by (force simp: incoming_def)
  then have "i \<in> set (incoming g k) \<longleftrightarrow> (\<exists>l. (k, l) \<in> set (successors_of g i))" for i
    by (simp add: edge_list_iff [OF d])
  then show ?thesis by force
qed

lemma old_targets_visit:
  assumes k0: "keys_ok b0"
  shows "keys_ok b \<and> current_node_id b0 \<le> current_node_id b
          \<and> (\<forall>i k. k < current_node_id b0 \<longrightarrow>
                (k \<in> fst ` set (successors_of (nodes b) i))
                  = (k \<in> fst ` set (successors_of (nodes b0) i))) \<Longrightarrow>
         keys_ok (visit t b) \<and> current_node_id b0 \<le> current_node_id (visit t b)
          \<and> (\<forall>i k. k < current_node_id b0 \<longrightarrow>
                (k \<in> fst ` set (successors_of (nodes (visit t b)) i))
                  = (k \<in> fst ` set (successors_of (nodes b0) i)))"
proof (rule visit_invariant
        [where P = "\<lambda>b. keys_ok b \<and> current_node_id b0 \<le> current_node_id b
                     \<and> (\<forall>i k. k < current_node_id b0 \<longrightarrow>
                           (k \<in> fst ` set (successors_of (nodes b) i))
                             = (k \<in> fst ` set (successors_of (nodes b0) i)))"
           and R = "\<lambda>t. current_node_id b0 \<le> t"], goal_cases)
  case (1 l t c b1)
  then show ?case by (simp add: keys_ok_create_node successors_of_create_node)
next
  case (3 f t l b1)
  show ?case
  proof (cases "f \<in> fst ` set (nodes b1) \<and> t \<in> fst ` set (nodes b1)")
    case True
    then show ?thesis using 3 by (auto simp: successors_of_add_edge)
  next
    case False
    then show ?thesis using 3 by (simp add: add_edge_skip)
  qed
next
  case (6 d f b1)
  have out: "successors_of (nodes b0) d = []"
    using k0 6(3) by (rule successors_of_outside)
  have "k \<notin> fst ` set (successors_of (AList.map_entry d f (nodes b1)) d)"
    if "k < current_node_id b0" for k
  proof (cases "map_of (nodes b1) d")
    case None
    then show ?thesis by (simp add: successors_of_map_entry)
  next
    case (Some n)
    then have s: "successors_of (nodes b1) d = successors n" by (simp add: successors_of_def)
    from 6(2) that
    have "(k \<in> fst ` set (successors_of (nodes b1) d))
            = (k \<in> fst ` set (successors_of (nodes b0) d))"
      by blast
    then have "k \<notin> fst ` set (successors n)" by (simp add: s out)
    then show ?thesis using 6(5) [of n] Some by (auto simp: successors_of_map_entry)
  qed
  then show ?case using 6(2) out by (simp add: successors_of_map_entry)
qed simp_all

lemma old_targets_visit_statements:
  assumes k0: "keys_ok b0"
  shows "keys_ok b \<and> current_node_id b0 \<le> current_node_id b
          \<and> (\<forall>i k. k < current_node_id b0 \<longrightarrow>
                (k \<in> fst ` set (successors_of (nodes b) i))
                  = (k \<in> fst ` set (successors_of (nodes b0) i))) \<Longrightarrow>
         keys_ok (visit_statements ts b) \<and> current_node_id b0 \<le> current_node_id (visit_statements ts b)
          \<and> (\<forall>i k. k < current_node_id b0 \<longrightarrow>
                (k \<in> fst ` set (successors_of (nodes (visit_statements ts b)) i))
                  = (k \<in> fst ` set (successors_of (nodes b0) i)))"
  by (rule visit_statements_invariant
        [where P = "\<lambda>b. keys_ok b \<and> current_node_id b0 \<le> current_node_id b
                     \<and> (\<forall>i k. k < current_node_id b0 \<longrightarrow>
                           (k \<in> fst ` set (successors_of (nodes b) i))
                             = (k \<in> fst ` set (successors_of (nodes b0) i)))"])
     (simp_all add: old_targets_visit [OF k0])

lemma incoming_visit_statements:
  assumes k: "keys_ok b" and c: "c < current_node_id b"
  shows "set (incoming (nodes (visit_statements ts b)) c) = set (incoming (nodes b) c)"
proof -
  have "keys_ok (visit_statements ts b) \<and> current_node_id b \<le> current_node_id (visit_statements ts b)
          \<and> (\<forall>i k. k < current_node_id b \<longrightarrow>
                (k \<in> fst ` set (successors_of (nodes (visit_statements ts b)) i))
                  = (k \<in> fst ` set (successors_of (nodes b) i)))"
    using k by (intro old_targets_visit_statements) simp_all
  then show ?thesis
    using c k by (simp add: incoming_set keys_ok_distinct)
qed

lemma incoming_create_and_connect:
  assumes w: "wf b"
  shows "set (incoming (nodes (create_and_connect l t d b)) c) =
           (if c = current_node_id b then set (current_exits b) else set (incoming (nodes b) c))"
proof -
  have k: "keys_ok b" using w by (simp add: wf_def)
  have k': "keys_ok (create_and_connect l t d b)" using k by (rule keys_ok_create_and_connect)
  have old: "current_node_id b \<notin> fst ` set (successors_of (nodes b) i)" for i
    using wf_targets_less [OF w, of "current_node_id b" _ i] by auto
  show ?thesis
    using old
    by (auto simp: incoming_set keys_ok_distinct [OF k] keys_ok_distinct [OF k']
        successors_of_create_and_connect [OF w])
qed

lemma visit_statements_append:
  "visit_statements (xs @ ys) b = visit_statements ys (visit_statements xs b)"
  by (induction xs arbitrary: b) simp_all

lemma program_start_eq:
  "(snd (create_node ''START'' ''start'' None FlowchartCFGBuilder_init))
      \<lparr>entry_node := Some (current_node_id FlowchartCFGBuilder_init),
         current_exits := [current_node_id FlowchartCFGBuilder_init]\<rparr> =
   \<lparr>nodes = [(0, CFGNode_init 0 ''START'' ''start'' None)], current_node_id = 1,
      entry_node = Some 0, current_exits = [0], function_name = None\<rparr>"
  by (simp add: create_node_def FlowchartCFGBuilder_init_def Let_def)

lemma wf_function_name [simp]: "wf (b\<lparr>function_name := x\<rparr>) = wf b"
  by (simp add: wf_def)

lemma function_start_node:
  assumes w: "wf b"
  shows "kinds (nodes (visit_statements (FunctionDef name args fbody # rest) b))
           ! current_node_id b = ''start''"
    and "set (incoming (nodes (visit_statements (FunctionDef name args fbody # rest) b))
           (current_node_id b)) = set (current_exits b)"
    and "wf (visit_statements (FunctionDef name args fbody # rest) b)"
    and "current_node_id b < current_node_id (visit_statements (FunctionDef name args fbody # rest) b)"
proof -
  let ?F = "FunctionDef name args fbody"
  let ?c = "current_node_id b"
  let ?fb = "b\<lparr>function_name := Some name\<rparr>"
  let ?b1 = "create_and_connect (''def '' @ name @ ''('' @ join '', '' args @ '')'') ''start'' None ?fb"
  let ?b2 = "visit_statements fbody ?b1"
  let ?b3 = "visit ?F b"
  from w have k: "keys_ok b" by (simp add: wf_def)
  have "kinds (nodes (visit_statements (?F # rest) b)) =
          kinds (nodes b) @ concat (map node_kinds (?F # rest))"
    using kinds_visit_statements [of "?F # rest" b] kinds_visit k by blast
  moreover have "length (kinds (nodes b)) = ?c"
    using keys_ok_length [OF k] by (simp add: kinds_def)
  ultimately show "kinds (nodes (visit_statements (?F # rest) b)) ! ?c = ''start''"
    by (simp add: nth_append)
  have wfb: "wf ?fb" using w by simp
  have w1: "wf ?b1" using wfb by (rule wf_create_and_connect)
  have c1: "current_node_id ?b1 = Suc ?c" by simp
  have inc1: "set (incoming (nodes ?b1) ?c) = set (current_exits b)"
    by (simp add: incoming_create_and_connect [OF wfb])
  have k1: "keys_ok ?b1" using w1 by (simp add: wf_def)
  have inc2: "set (incoming (nodes ?b2) ?c) = set (current_exits b)"
    using incoming_visit_statements [OF k1, of ?c fbody] inc1 by (simp add: c1)
  have w2: "wf ?b2" using w1 by (rule wf_visit_statements)
  have "Suc ?c \<le> current_node_id ?b2"
    by (rule cur_visit_statements_mono) (simp add: c1)
  then have c2: "?c < current_node_id ?b2" by simp
  have b3: "?b3 = (if \<not> list_ex is_Return fbody
                   then create_and_connect ''return None'' ''output'' None ?b2 else ?b2)"
    by (simp add: visit_FunctionDef Let_def)
  have "set (incoming (nodes (create_and_connect ''return None'' ''output'' None ?b2)) ?c) =
          (if ?c = current_node_id ?b2 then set (current_exits ?b2)
           else set (incoming (nodes ?b2) ?c))"
    by (rule incoming_create_and_connect [OF w2])
  then have "set (incoming (nodes (create_and_connect ''return None'' ''output'' None ?b2)) ?c) =
          set (current_exits b)"
    using inc2 c2 by simp
  then have inc3: "set (incoming (nodes ?b3) ?c) = set (current_exits b)"
    using inc2 by (simp add: b3)
  have c3: "?c < current_node_id ?b3"
    using c2 by (simp add: b3)
  have w3: "wf ?b3" using w by (rule wf_visit)
  then have k3: "keys_ok ?b3" by (simp add: wf_def)
  show "set (incoming (nodes (visit_statements (?F # rest) b)) ?c) = set (current_exits b)"
    using incoming_visit_statements [OF k3 c3, of rest] inc3 by simp
  show "wf (visit_statements (?F # rest) b)"
    using w by (rule wf_visit_statements)
  have "Suc ?c \<le> current_node_id (visit_statements rest ?b3)"
    by (rule cur_visit_statements_mono) (use c3 in simp)
  then show "?c < current_node_id (visit_statements (?F # rest) b)" by simp
qed

section \<open>Graphs of some small programs\<close>

text \<open>
  The graphs the builder produces for \<^verbatim>\<open>while x > 0: x = x - 1\<close>, for
  \<^verbatim>\<open>for i in xs: x = 1\<close>, for \<^verbatim>\<open>if x > 0: y = 1\<close>, for a function \<^verbatim>\<open>def f(a, b): pass\<close>,
  for the call \<^verbatim>\<open>log(input_data)\<close>, and for a \<^verbatim>\<open>return\<close> followed by a loop.
\<close>

lemma while_graph:
  "create_flowchart_cfg (Some [While ''x > 0'' [Assign [''x''] ''x - 1''] []]) =
     [(0, \<lparr>node_id = 0, label = ''START'', node_type = ''start'', condition = None,
         successors = [(1, [])], predecessors = {}\<rparr>),
      (1, \<lparr>node_id = 1, label = ''x > 0'', node_type = ''decision'', condition = Some ''x > 0'',
         successors = [(2, ''False''), (3, [])], predecessors = {2, 0}\<rparr>),
      (2, \<lparr>node_id = 2, label = ''x = x - 1'', node_type = ''process'', condition = None,
         successors = [(1, [])], predecessors = {1}\<rparr>),
      (3, \<lparr>node_id = 3, label = ''END'', node_type = ''end'', condition = None,
         successors = [], predecessors = {1}\<rparr>)]"
  by code_simp

lemma for_graph:
  "create_flowchart_cfg (Some [For ''i'' ''xs'' [Assign [''x''] ''1''] []]) =
     [(0, \<lparr>node_id = 0, label = ''START'', node_type = ''start'', condition = None,
         successors = [(1, [])], predecessors = {}\<rparr>),
      (1, \<lparr>node_id = 1, label = ''for i in xs'', node_type = ''decision'', condition = Some ''for i in xs'',
         successors = [(2, []), (3, [])], predecessors = {2, 0}\<rparr>),
      (2, \<lparr>node_id = 2, label = ''x = 1'', node_type = ''process'', condition = None,
         successors = [(1, [])], predecessors = {1}\<rparr>),
      (3, \<lparr>node_id = 3, label = ''END'', node_type = ''end'', condition = None,
         successors = [], predecessors = {1}\<rparr>)]"
  by code_simp

lemma if_without_else_graph:
  "create_flowchart_cfg (Some [If ''x > 0'' [Assign [''y''] ''1''] []]) =
     [(0, \<lparr>node_id = 0, label = ''START'', node_type = ''start'', condition = None,
         successors = [(1, [])], predecessors = {}\<rparr>),
      (1, \<lparr>node_id = 1, label = ''x > 0'', node_type = ''decision'', condition = Some ''x > 0'',
         successors = [(2, ''True''), (3, [])], predecessors = {0}\<rparr>),
      (2, \<lparr>node_id = 2, label = ''y = 1'', node_type = ''process'', condition = None,
         successors = [(3, [])], predecessors = {1}\<rparr>),
      (3, \<lparr>node_id = 3, label = ''END'', node_type = ''end'', condition = None,
         successors = [], predecessors = {1, 2}\<rparr>)]"
  by code_simp

lemma function_graph:
  "create_flowchart_cfg (Some [FunctionDef ''f'' [''a'', ''b''] [Other (Some ''pass'') ''Pass'' []]]) =
     [(0, \<lparr>node_id = 0, label = ''START'', node_type = ''start'', condition = None,
         successors = [(1, [])], predecessors = {}\<rparr>),
      (1, \<lparr>node_id = 1, label = ''def f(a, b)'', node_type = ''start'', condition = None,
         successors = [(2, [])], predecessors = {0}\<rparr>),
      (2, \<lparr>node_id = 2, label = ''pass'', node_type = ''process'', condition = None,
         successors = [(3, [])], predecessors = {1}\<rparr>),
      (3, \<lparr>node_id = 3, label = ''return None'', node_type = ''output'', condition = None,
         successors = [(4, [])], predecessors = {2}\<rparr>),
      (4, \<lparr>node_id = 4, label = ''END'', node_type = ''end'', condition = None,
         successors = [], predecessors = {3}\<rparr>)]"
  by code_simp

lemma log_call_graph:
  "create_flowchart_cfg (Some [Expr (ECall ''log'' [''input_data''])]) =
     [(0, \<lparr>node_id = 0, label = ''START'', node_type = ''start'', condition = None,
         successors = [(1, [])], predecessors = {}\<rparr>),
      (1, \<lparr>node_id = 1, label = ''log(input_data)'', node_type = ''input'', condition = None,
         successors = [(2, [])], predecessors = {0}\<rparr>),
      (2, \<lparr>node_id = 2, label = ''END'', node_type = ''end'', condition = None,
         successors = [], predecessors = {1}\<rparr>)]"
  by code_simp

lemma return_while_graph:
  "create_flowchart_cfg (Some [Return None, While ''c'' [Assign [''x''] ''1''] []]) =
     [(0, \<lparr>node_id = 0, label = ''START'', node_type = ''start'', condition = None,
         successors = [(1, [])], predecessors = {}\<rparr>),
      (1, \<lparr>node_id = 1, label = ''return'', node_type = ''output'', condition = None,
         successors = [], predecessors = {0}\<rparr>),
      (2, \<lparr>node_id = 2, label = ''c'', node_type = ''decision'', condition = Some ''c'',
         successors = [(3, ''False''), (4, [])], predecessors = {3}\<rparr>),
      (3, \<lparr>node_id = 3, label = ''x = 1'', node_type = ''process'', condition = None,
         successors = [(2, [])], predecessors = {2}\<rparr>),
      (4, \<lparr>node_id = 4, label = ''END'', node_type = ''end'', condition = None,
         successors = [], predecessors = {2}\<rparr>)]"
  by code_simp

text \<open>
  The graph of \<^verbatim>\<open>return\<close>, \<^verbatim>\<open>return\<close>, \<^verbatim>\<open>if c: x = 1\<close>, built in three steps: the two
  Returns, the conditional, the End node.
\<close>

lemma two_returns_state:
  "visit_statements [Return None, Return None]
     \<lparr>nodes = [(0, CFGNode_init 0 ''START'' ''start'' None)], current_node_id = 1,
        entry_node = Some 0, current_exits = [0], function_name = None\<rparr> =
   \<lparr>nodes =
      [(0, \<lparr>node_id = 0, label = ''START'', node_type = ''start'', condition = None,
          successors = [(1, [])], predecessors = {}\<rparr>),
       (1, \<lparr>node_id = 1, label = ''return'', node_type = ''output'', condition = None,
          successors = [], predecessors = {0}\<rparr>),
       (2, \<lparr>node_id = 2, label = ''return'', node_type = ''output'', condition = None,
          successors = [], predecessors = {}\<rparr>)],
    current_node_id = 3, entry_node = Some 0, current_exits = [], function_name = None\<rparr>"
  by code_simp

lemma dead_if_state:
  "visit (If ''c'' [Assign [''x''] ''1''] [])
     \<lparr>nodes =
        [(0, \<lparr>node_id = 0, label = ''START'', node_type = ''start'', condition = None,
            successors = [(1, [])], predecessors = {}\<rparr>),
         (1, \<lparr>node_id = 1, label = ''return'', node_type = ''output'', condition = None,
            successors = [], predecessors = {0}\<rparr>),
         (2, \<lparr>node_id = 2, label = ''return'', node_type = ''output'', condition = None,
            successors = [], predecessors = {}\<rparr>)],
      current_node_id = 3, entry_node = Some 0, current_exits = [], function_name = None\<rparr> =
   \<lparr>nodes =
      [(0, \<lparr>node_id = 0, label = ''START'', node_type = ''start'', condition = None,
          successors = [(1, [])], predecessors = {}\<rparr>),
       (1, \<lparr>node_id = 1, label = ''return'', node_type = ''output'', condition = None,
          successors = [], predecessors = {0}\<rparr>),
       (2, \<lparr>node_id = 2, label = ''return'', node_type = ''output'', condition = None,
          successors = [], predecessors = {}\<rparr>),
       (3, \<lparr>node_id = 3, label = ''c'', node_type = ''decision'', condition = Some ''c'',
          successors = [(4, ''True'')], predecessors = {}\<rparr>),
       (4, \<lparr>node_id = 4, label = ''x = 1'', node_type = ''process'', condition = None,
          successors = [], predecessors = {3}\<rparr>)],
    current_node_id = 5, entry_node = Some 0, current_exits = [4, 3], function_name = None\<rparr>"
  by code_simp

lemma dead_if_end:
  "nodes (create_and_connect ''END'' ''end'' None
     \<lparr>nodes =
      [(0, \<lparr>node_id = 0, label = ''START'', node_type = ''start'', condition = None,
          successors = [(1, [])], predecessors = {}\<rparr>),
       (1, \<lparr>node_id = 1, label = ''return'', node_type = ''output'', condition = None,
          successors = [], predecessors = {0}\<rparr>),
       (2, \<lparr>node_id = 2, label = ''return'', node_type = ''output'', condition = None,
          successors = [], predecessors = {}\<rparr>),
       (3, \<lparr>node_id = 3, label = ''c'', node_type = ''decision'', condition = Some ''c'',
          successors = [(4, ''True'')], predecessors = {}\<rparr>),
       (4, \<lparr>node_id = 4, label = ''x = 1'', node_type = ''process'', condition = None,
          successors = [], predecessors = {3}\<rparr>)],
    current_node_id = 5, entry_node = Some 0, current_exits = [4, 3], function_name = None\<rparr>) =
     [(0, \<lparr>node_id = 0, label = ''START'', node_type = ''start'', condition = None,
         successors = [(1, [])], predecessors = {}\<rparr>),
      (1, \<lparr>node_id = 1, label = ''return'', node_type = ''output'', condition = None,
         successors = [], predecessors = {0}\<rparr>),
      (2, \<lparr>node_id = 2, label = ''return'', node_type = ''output'', condition = None,
         successors = [], predecessors = {}\<rparr>),
      (3, \<lparr>node_id = 3, label = ''c'', node_type = ''decision'', condition = Some ''c'',
         successors = [(4, ''True''), (5, [])], predecessors = {}\<rparr>),
      (4, \<lparr>node_id = 4, label = ''x = 1'', node_type = ''process'', condition = None,
         successors = [(5, [])], predecessors = {3}\<rparr>),
      (5, \<lparr>node_id = 5, label = ''END'', node_type = ''end'', condition = None,
         successors = [], predecessors = {4, 3}\<rparr>)]"
  by code_simp

lemma return_return_if_graph:
  "create_flowchart_cfg
     (Some [Return None, Return None, If ''c'' [Assign [''x''] ''1''] []]) =
     [(0, \<lparr>node_id = 0, label = ''START'', node_type = ''start'', condition = None,
         successors = [(1, [])], predecessors = {}\<rparr>),
      (1, \<lparr>node_id = 1, label = ''return'', node_type = ''output'', condition = None,
         successors = [], predecessors = {0}\<rparr>),
      (2, \<lparr>node_id = 2, label = ''return'', node_type = ''output'', condition = None,
         successors = [], predecessors = {}\<rparr>),
      (3, \<lparr>node_id = 3, label = ''c'', node_type = ''decision'', condition = Some ''c'',
         successors = [(4, ''True''), (5, [])], predecessors = {}\<rparr>),
      (4, \<lparr>node_id = 4, label = ''x = 1'', node_type = ''process'', condition = None,
         successors = [(5, [])], predecessors = {3}\<rparr>),
      (5, \<lparr>node_id = 5, label = ''END'', node_type = ''end'', condition = None,
         successors = [], predecessors = {4, 3}\<rparr>)]"
proof -
  have "visit_statements [Return None, Return None, If ''c'' [Assign [''x''] ''1''] []] b =
          visit (If ''c'' [Assign [''x''] ''1''] []) (visit_statements [Return None, Return None] b)"
    for b
    using visit_statements_append [of "[Return None, Return None]" "[If ''c'' [Assign [''x''] ''1''] []]" b]
    by simp
  then show ?thesis
    by (simp only: create_flowchart_cfg_def option.case visit_Module_eq program_start_eq
        two_returns_state dead_if_state dead_if_end)
qed

section \<open>Decision nodes and their edge labels\<close>

text \<open>
  Claim C1 says that every decision node of a completed graph has exactly two outgoing
  edges, labelled \<^verbatim>\<open>"True"\<close> and \<^verbatim>\<open>"False"\<close>. The builder relabels a decision's edges at the
  end of \<^verbatim>\<open>visit_If\<close> and \<^verbatim>\<open>visit_While\<close>, before the edge to the following statement
  exists, and \<^verbatim>\<open>visit_For\<close> relabels nothing. For a conditional without \<^verbatim>\<open>else\<close> the labels
  are \<^verbatim>\<open>"True"\<close> and the empty label, for a while loop \<^verbatim>\<open>"False"\<close> (on the edge into the
  body) and the empty label, for a for loop twice the empty label.
\<close>

theorem decision_edges_not_true_false:
  "node_list (create_flowchart_cfg (Some [If ''x > 0'' [Assign [''y''] ''1''] []])) ! 1 = (1, ''x > 0'', ''decision'')
   \<and> successors_of (create_flowchart_cfg (Some [If ''x > 0'' [Assign [''y''] ''1''] []])) 1 = [(2, ''True''), (3, [])]
   \<and> node_list (create_flowchart_cfg (Some [While ''x > 0'' [Assign [''x''] ''x - 1''] []])) ! 1 = (1, ''x > 0'', ''decision'')
   \<and> successors_of (create_flowchart_cfg (Some [While ''x > 0'' [Assign [''x''] ''x - 1''] []])) 1 = [(2, ''False''), (3, [])]
   \<and> node_list (create_flowchart_cfg (Some [For ''i'' ''xs'' [Assign [''x''] ''1''] []])) ! 1 = (1, ''for i in xs'', ''decision'')
   \<and> successors_of (create_flowchart_cfg (Some [For ''i'' ''xs'' [Assign [''x''] ''1''] []])) 1 = [(2, []), (3, [])]"
  unfolding if_without_else_graph while_graph for_graph
  by (simp add: node_list_def successors_of_def)

text \<open>
  Claim C2 says that a for loop labels the edges of its decision by the rule of the while
  loop. \<^verbatim>\<open>visit_For\<close> renders the label \<^verbatim>\<open>for <target> in <iter>\<close> and builds the loop as
  \<^verbatim>\<open>visit_While\<close> does, but has no relabelling step: every edge of the decision keeps the
  empty label.
\<close>

theorem for_loop_edges_unlabelled:
  "node_list (create_flowchart_cfg (Some [For ''i'' ''xs'' [Assign [''x''] ''1''] []])) =
     [(0, ''START'', ''start''), (1, ''for i in xs'', ''decision''),
      (2, ''x = 1'', ''process''), (3, ''END'', ''end'')]
   \<and> edge_list (create_flowchart_cfg (Some [For ''i'' ''xs'' [Assign [''x''] ''1''] []])) =
     [(0, 1, []), (1, 2, []), (1, 3, []), (2, 1, [])]"
  unfolding for_graph
  by (simp add: node_list_def edge_list_def)

text \<open>
  Claim C3, scenario C: the graph of \<^verbatim>\<open>while x > 0: x = x - 1\<close>. The nodes, the edges and
  the complexity 2 are as the claim says, but the edge from the decision into the body is
  labelled \<^verbatim>\<open>"False"\<close> and the edge from the decision to End has the empty label.
\<close>

theorem while_scenario_graph:
  "node_list (create_flowchart_cfg (Some [While ''x > 0'' [Assign [''x''] ''x - 1''] []])) =
     [(0, ''START'', ''start''), (1, ''x > 0'', ''decision''),
      (2, ''x = x - 1'', ''process''), (3, ''END'', ''end'')]
   \<and> edge_list (create_flowchart_cfg (Some [While ''x > 0'' [Assign [''x''] ''x - 1''] []])) =
     [(0, 1, []), (1, 2, ''False''), (1, 3, []), (2, 1, [])]
   \<and> calculate_cyclomatic_complexity (create_flowchart_cfg (Some [While ''x > 0'' [Assign [''x''] ''x - 1''] []])) = 2"
  unfolding while_graph
  by (simp add: node_list_def edge_list_def calculate_cyclomatic_complexity_def)

section \<open>Call statements\<close>

text \<open>
  Claim C7, as amended: an expression statement that is a call creates exactly one node,
  labelled with the rendered call, and connects the frontier to it. The kind of the node
  is decided by the rendered text of the whole call in lower case: Output when it contains
  \<^verbatim>\<open>print\<close>, else Input when it contains \<^verbatim>\<open>input\<close>, else Call. So a callee named
  \<^verbatim>\<open>print\<close> gives Output and a callee named \<^verbatim>\<open>input\<close> gives Input or Output, but another
  callee gives Call only when neither word occurs anywhere in the text. The builder \<open>b\<close> is
  any well-formed one, as it is before every statement of a build (\<open>wf_program_start\<close>,
  \<open>wf_visit\<close>).
\<close>

theorem call_statement_classification:
  "wf b \<Longrightarrow>
     (let text = unparse (ECall func args);
          c = current_node_id b;
          b' = visit (Expr (ECall func args)) b
      in node_list (nodes b') =
           node_list (nodes b) @
             [(c, text,
               if contains ''print'' (lower text) then ''output''
               else if contains ''input'' (lower text) then ''input'' else ''call'')]
         \<and> (\<forall>i. successors_of (nodes b') i =
               (if i \<in> set (current_exits b) then successors_of (nodes b) i @ [(c, [])]
                else successors_of (nodes b) i))
         \<and> current_exits b' = [c]
         \<and> (func = ''print'' \<longrightarrow> contains ''print'' (lower text))
         \<and> (func = ''input'' \<longrightarrow> contains ''input'' (lower text)))"
proof -
  assume w: "wf b"
  then have k: "keys_ok b" by (simp add: wf_def)
  have "lower (unparse (ECall ''print'' args)) = ''print'' @ lower (''('' @ join '', '' args @ '')'')"
    by (simp only: unparse.simps lower_append lower_print)
  then have p: "contains ''print'' (lower (unparse (ECall ''print'' args)))"
    by (intro contains_prefix) simp
  have "lower (unparse (ECall ''input'' args)) = ''input'' @ lower (''('' @ join '', '' args @ '')'')"
    by (simp only: unparse.simps lower_append lower_input)
  then have i: "contains ''input'' (lower (unparse (ECall ''input'' args)))"
    by (intro contains_prefix) simp
  show ?thesis
    unfolding Let_def visit_Expr_call
    using p i
    by (auto simp add: node_list_create_and_connect [OF k] successors_of_create_and_connect [OF w]
        call_node_type_eq simp del: unparse.simps)
qed

theorem call_statement_classification_witness:
  "wf \<lparr>nodes = [(0, CFGNode_init 0 ''START'' ''start'' None)], current_node_id = 1,
       entry_node = Some 0, current_exits = [0], function_name = None\<rparr>
   \<and> node_list (nodes (visit (Expr (ECall ''log'' [''input_data'']))
        \<lparr>nodes = [(0, CFGNode_init 0 ''START'' ''start'' None)], current_node_id = 1,
         entry_node = Some 0, current_exits = [0], function_name = None\<rparr>)) =
       [(0, ''START'', ''start''), (1, ''log(input_data)'', ''input'')]
   \<and> current_exits (visit (Expr (ECall ''log'' [''input_data'']))
        \<lparr>nodes = [(0, CFGNode_init 0 ''START'' ''start'' None)], current_node_id = 1,
         entry_node = Some 0, current_exits = [0], function_name = None\<rparr>) = [1]"
proof -
  have c: "\<not> contains ''print'' (lower ''log(input_data)'')"
    "contains ''input'' (lower ''log(input_data)'')"
    by code_simp+
  show ?thesis
    using call_statement_classification [OF wf_start, of "''log''" "[''input_data'']"] wf_start c
    by (simp add: Let_def node_list_def CFGNode_init_def)
qed

text \<open>
  Claim C7 as stated fails for the statement \<^verbatim>\<open>log(input_data)\<close>: the callee is \<open>log\<close>, and
  the node is an Input node.
\<close>

theorem call_classified_by_text_counterexample:
  "node_list (create_flowchart_cfg (Some [Expr (ECall ''log'' [''input_data''])])) =
     [(0, ''START'', ''start''), (1, ''log(input_data)'', ''input''), (2, ''END'', ''end'')]"
  unfolding log_call_graph
  by (simp add: node_list_def)

section \<open>Return and the statements after it\<close>

text \<open>
  Claim C8, as amended: visiting a Return creates one Output node labelled
  \<^verbatim>\<open>return <expr>\<close> or \<^verbatim>\<open>return\<close>, adds one unlabelled edge to it from every node of the
  frontier, and leaves the frontier empty. Connecting the empty frontier to any node
  changes no node, so the node created next has no incoming edge when the frontier has
  been connected to it. (When the next statement is a loop, its decision node later
  receives the back-edges of its own body.) The builder \<open>b\<close> is any well-formed one.
\<close>

theorem return_terminates_flow:
  "wf b \<Longrightarrow>
     (let c = current_node_id b;
          b1 = visit (Return v) b
      in node_list (nodes b1) =
           node_list (nodes b) @
             [(c, (case v of Some e \<Rightarrow> ''return '' @ e | None \<Rightarrow> ''return''), ''output'')]
         \<and> (\<forall>i. successors_of (nodes b1) i =
               (if i \<in> set (current_exits b) then successors_of (nodes b) i @ [(c, [])]
                else successors_of (nodes b) i))
         \<and> current_exits b1 = []
         \<and> (\<forall>t. nodes (connect_exits_to_node t b1) = nodes b1)
         \<and> (\<forall>l k d. incoming (nodes (create_and_connect l k d b1)) (c + 1) = []))"
proof -
  assume w: "wf b"
  then have k: "keys_ok b" by (simp add: wf_def)
  let ?b1 = "visit (Return v) b"
  have w1: "wf ?b1" using w by (rule wf_visit_Return)
  have c1: "current_node_id ?b1 = Suc (current_node_id b)" and e1: "current_exits ?b1 = []"
    by (simp_all add: visit_Return)
  have inc: "incoming (nodes (create_and_connect l k d ?b1)) (current_node_id b + 1) = []"
    for l k d
  proof -
    have w2: "wf (create_and_connect l k d ?b1)" using w1 by (rule wf_create_and_connect)
    then have dist: "distinct (map fst (nodes (create_and_connect l k d ?b1)))"
      by (simp add: wf_def keys_ok_distinct)
    have "Suc (current_node_id b) \<notin> fst ` set (successors_of (nodes (create_and_connect l k d ?b1)) i)"
      for i
      using wf_targets_less [OF w1, of "Suc (current_node_id b)" _ i]
      by (auto simp: successors_of_create_and_connect [OF w1] e1 c1)
    then show ?thesis by (simp add: incoming_Nil_iff [OF dist])
  qed
  show ?thesis
    unfolding Let_def
    using inc e1
    by (simp add: visit_Return node_list_create_and_connect [OF k]
        successors_of_create_and_connect [OF w] connect_empty_frontier)
qed

theorem return_terminates_flow_witness:
  "wf \<lparr>nodes = [(0, CFGNode_init 0 ''START'' ''start'' None)], current_node_id = 1,
       entry_node = Some 0, current_exits = [0], function_name = None\<rparr>
   \<and> node_list (nodes (visit (Return None)
        \<lparr>nodes = [(0, CFGNode_init 0 ''START'' ''start'' None)], current_node_id = 1,
         entry_node = Some 0, current_exits = [0], function_name = None\<rparr>)) =
       [(0, ''START'', ''start''), (1, ''return'', ''output'')]
   \<and> current_exits (visit (Return None)
        \<lparr>nodes = [(0, CFGNode_init 0 ''START'' ''start'' None)], current_node_id = 1,
         entry_node = Some 0, current_exits = [0], function_name = None\<rparr>) = []
   \<and> incoming (nodes (create_and_connect ''x = 1'' ''process'' None (visit (Return None)
        \<lparr>nodes = [(0, CFGNode_init 0 ''START'' ''start'' None)], current_node_id = 1,
         entry_node = Some 0, current_exits = [0], function_name = None\<rparr>))) 2 = []"
  using return_terminates_flow [OF wf_start, of None] wf_start
  by (simp add: Let_def node_list_def CFGNode_init_def numeral_2_eq_2)

text \<open>
  Claim C8 as stated fails when a loop follows the Return: in the graph of
  \<^verbatim>\<open>return\<close>, \<^verbatim>\<open>while c: x = 1\<close> the decision node of the loop has an incoming edge, the
  back-edge from the body.
\<close>

theorem loop_after_return_counterexample:
  "node_list (create_flowchart_cfg (Some [Return None, While ''c'' [Assign [''x''] ''1''] []])) ! 2 = (2, ''c'', ''decision'')
   \<and> incoming (create_flowchart_cfg (Some [Return None, While ''c'' [Assign [''x''] ''1''] []])) 2 = [3]"
  unfolding return_while_graph
  by (simp add: node_list_def incoming_def edge_list_def)

text \<open>
  Claim C10, as amended: the statements after a Return are not skipped. Whatever they
  are, each creates the nodes it creates anywhere else (\<open>node_kinds\<close>, the same list as
  for the same statements visited without the Return before them), and the cyclomatic
  complexity is computed from the number of all nodes and all edges, theirs included.
  When each of them is a plain assignment, an augmented assignment, an expression
  statement, or a statement without a visitor of its own none of whose children creates a
  node (\<^verbatim>\<open>pass\<close>, \<^verbatim>\<open>break\<close>, \<^verbatim>\<open>continue\<close>, \<^verbatim>\<open>global\<close>, \<^verbatim>\<open>nonlocal\<close>, a bare \<^verbatim>\<open>raise\<close>), each
  creates exactly one node; the first of these nodes has no incoming edge and still
  becomes the frontier, each of them but the last has one unlabelled edge to the next, and
  the last one is the frontier afterwards; the number of nodes grows by one for the
  Return and one for each statement, the number of edges by the size of the frontier
  before the Return and one for each statement but the first. The builder \<open>b\<close> is any
  well-formed one.
\<close>

theorem dead_statements:
  "wf b \<Longrightarrow>
     (let c = current_node_id b;
          b' = visit_statements (Return v # ss) b
      in kinds (nodes b') = kinds (nodes b) @ ''output'' # concat (map node_kinds ss)
         \<and> kinds (nodes (visit_statements ss b)) = kinds (nodes b) @ concat (map node_kinds ss)
         \<and> length (nodes b') = length (nodes b) + 1 + length (concat (map node_kinds ss))
         \<and> calculate_cyclomatic_complexity (nodes b') =
             max 1 (int (edge_count (nodes b')) - int (length (nodes b')) + 2)
         \<and> (list_all one_node_stmt ss \<and> ss \<noteq> [] \<longrightarrow>
              (let k = length ss
               in length (nodes b') = length (nodes b) + 1 + k
                  \<and> incoming (nodes b') (c + 1) = []
                  \<and> (\<forall>j. j + 1 < k \<longrightarrow>
                        successors_of (nodes b') (c + 1 + j) = [(c + 2 + j, [])])
                  \<and> successors_of (nodes b') (c + k) = []
                  \<and> current_exits b' = [c + k]
                  \<and> edge_count (nodes b') =
                      edge_count (nodes b) + length (current_exits b) + (k - 1)
                  \<and> calculate_cyclomatic_complexity (nodes b') =
                      max 1 (int (edge_count (nodes b) + length (current_exits b) + (k - 1))
                             - int (length (nodes b) + 1 + k) + 2))))"
proof -
  assume w: "wf b"
  from w have k: "keys_ok b" by (simp add: wf_def)
  let ?b1 = "visit (Return v) b"
  let ?b' = "visit_statements ss ?b1"
  have w1: "wf ?b1" using w by (rule wf_visit_Return)
  then have k1: "keys_ok ?b1" by (simp add: wf_def)
  have c1: "current_node_id ?b1 = Suc (current_node_id b)" and e1: "current_exits ?b1 = []"
    by (simp_all add: visit_Return)
  have n1: "length (nodes ?b1) = Suc (length (nodes b))"
    by (simp add: visit_Return length_create_and_connect [OF k])
  have ec1: "edge_count (nodes ?b1) = edge_count (nodes b) + length (current_exits b)"
    by (simp add: visit_Return edge_count_create_and_connect [OF w])
  have kd1: "kinds (nodes ?b1) = kinds (nodes b) @ [''output'']"
    using kinds_visit [OF k, of "Return v"] by simp
  have kd: "kinds (nodes ?b') = kinds (nodes b) @ ''output'' # concat (map node_kinds ss)"
    using kinds_visit_statements [of ss ?b1] kinds_visit k1 by (simp add: kd1)
  have live: "kinds (nodes (visit_statements ss b)) = kinds (nodes b) @ concat (map node_kinds ss)"
    using kinds_visit_statements [of ss b] kinds_visit k by simp
  have "length (nodes ?b') = length (kinds (nodes ?b'))"
    by (simp add: kinds_def)
  also have "\<dots> = length (kinds (nodes b)) + 1 + length (concat (map node_kinds ss))"
    by (simp only: kd) simp
  finally have len0: "length (nodes ?b') = length (nodes b) + 1 + length (concat (map node_kinds ss))"
    by (simp add: kinds_def)
  then have "nodes ?b' \<noteq> []" by auto
  then have cc: "calculate_cyclomatic_complexity (nodes ?b') =
      max 1 (int (edge_count (nodes ?b')) - int (length (nodes ?b')) + 2)"
    by (simp add: calculate_cyclomatic_complexity_def edge_count_def Let_def max.commute)
  have chain: "length (nodes ?b') = length (nodes b) + 1 + length ss
         \<and> incoming (nodes ?b') (current_node_id b + 1) = []
         \<and> (\<forall>j. j + 1 < length ss \<longrightarrow>
               successors_of (nodes ?b') (current_node_id b + 1 + j)
                 = [(current_node_id b + 2 + j, [])])
         \<and> successors_of (nodes ?b') (current_node_id b + length ss) = []
         \<and> current_exits ?b' = [current_node_id b + length ss]
         \<and> edge_count (nodes ?b') =
              edge_count (nodes b) + length (current_exits b) + (length ss - 1)"
    if all: "list_all one_node_stmt ss" and ne: "ss \<noteq> []"
  proof -
    note ch = one_node_chain [OF w1 all ne]
    from ch have w': "wf ?b'" by simp
    then have dist: "distinct (map fst (nodes ?b'))" by (simp add: wf_def keys_ok_distinct)
    have succ: "successors_of (nodes ?b') i =
             (if i < Suc (current_node_id b) then successors_of (nodes ?b1) i
              else if Suc i < Suc (current_node_id b) + length ss then [(Suc i, [])] else [])" for i
      using ch by (simp add: c1 e1)
    have "Suc (current_node_id b) \<notin> fst ` set (successors_of (nodes ?b') i)" for i
      using wf_targets_less [OF w1, of "Suc (current_node_id b)" _ i]
      by (auto simp: succ c1)
    then have inc: "incoming (nodes ?b') (current_node_id b + 1) = []"
      by (simp add: incoming_Nil_iff [OF dist])
    have len: "length (nodes ?b') = length (nodes b) + 1 + length ss"
      using ch n1 by simp
    have ec: "edge_count (nodes ?b') =
        edge_count (nodes b) + length (current_exits b) + (length ss - 1)"
      using ch ec1 e1 by simp
    have ex: "current_exits ?b' = [current_node_id b + length ss]"
      using ch ne by (simp add: c1)
    show ?thesis
      using inc len ex ne by (simp add: succ ec)
  qed
  have cplx: "calculate_cyclomatic_complexity (nodes ?b') =
      max 1 (int (edge_count (nodes b) + length (current_exits b) + (length ss - 1))
             - int (length (nodes b) + 1 + length ss) + 2)"
    if "list_all one_node_stmt ss" and "ss \<noteq> []"
    using chain [OF that] by (simp only: cc)
  show ?thesis
    unfolding Let_def visit_statements.simps
    using kd live len0 cc chain cplx by blast
qed

theorem dead_statements_witness:
  "wf \<lparr>nodes = [(0, CFGNode_init 0 ''START'' ''start'' None)], current_node_id = 1,
       entry_node = Some 0, current_exits = [0], function_name = None\<rparr>
   \<and> list_all one_node_stmt [Assign [''x''] ''1'', Other (Some ''pass'') ''Pass'' []]
   \<and> kinds (nodes (visit_statements
        [Return None, Assign [''x''] ''1'', Other (Some ''pass'') ''Pass'' []]
        \<lparr>nodes = [(0, CFGNode_init 0 ''START'' ''start'' None)], current_node_id = 1,
         entry_node = Some 0, current_exits = [0], function_name = None\<rparr>)) =
       [''start'', ''output'', ''process'', ''process'']
   \<and> length (nodes (visit_statements
        [Return None, Assign [''x''] ''1'', Other (Some ''pass'') ''Pass'' []]
        \<lparr>nodes = [(0, CFGNode_init 0 ''START'' ''start'' None)], current_node_id = 1,
         entry_node = Some 0, current_exits = [0], function_name = None\<rparr>)) = 4
   \<and> incoming (nodes (visit_statements
        [Return None, Assign [''x''] ''1'', Other (Some ''pass'') ''Pass'' []]
        \<lparr>nodes = [(0, CFGNode_init 0 ''START'' ''start'' None)], current_node_id = 1,
         entry_node = Some 0, current_exits = [0], function_name = None\<rparr>)) 2 = []
   \<and> successors_of (nodes (visit_statements
        [Return None, Assign [''x''] ''1'', Other (Some ''pass'') ''Pass'' []]
        \<lparr>nodes = [(0, CFGNode_init 0 ''START'' ''start'' None)], current_node_id = 1,
         entry_node = Some 0, current_exits = [0], function_name = None\<rparr>)) 2 = [(3, [])]
   \<and> current_exits (visit_statements
        [Return None, Assign [''x''] ''1'', Other (Some ''pass'') ''Pass'' []]
        \<lparr>nodes = [(0, CFGNode_init 0 ''START'' ''start'' None)], current_node_id = 1,
         entry_node = Some 0, current_exits = [0], function_name = None\<rparr>) = [3]
   \<and> calculate_cyclomatic_complexity (nodes (visit_statements
        [Return None, Assign [''x''] ''1'', Other (Some ''pass'') ''Pass'' []]
        \<lparr>nodes = [(0, CFGNode_init 0 ''START'' ''start'' None)], current_node_id = 1,
         entry_node = Some 0, current_exits = [0], function_name = None\<rparr>)) = 1"
proof -
  have p: "strip ''pass'' = ''pass''" by code_simp
  have a: "list_all one_node_stmt [Assign [''x''] ''1'', Other (Some ''pass'') ''Pass'' []]"
    by (simp add: p)
  note t = dead_statements
    [OF wf_start, of None "[Assign [''x''] ''1'', Other (Some ''pass'') ''Pass'' []]",
     unfolded Let_def]
  from t a have "successors_of (nodes (visit_statements
        [Return None, Assign [''x''] ''1'', Other (Some ''pass'') ''Pass'' []]
        \<lparr>nodes = [(0, CFGNode_init 0 ''START'' ''start'' None)], current_node_id = 1,
         entry_node = Some 0, current_exits = [0], function_name = None\<rparr>)) (1 + 1 + 0)
          = [(1 + 2 + 0, [])]"
    by (elim conjE impE) (simp, erule allE [of _ 0], simp)
  then show ?thesis
    using t wf_start a
    by (simp add: edge_count_def kinds_def CFGNode_init_def numeral_2_eq_2 numeral_3_eq_3 p)
qed

text \<open>
  Claim C10 as stated fails for a Return and for a compound statement after the Return:
  in the graph of \<^verbatim>\<open>return\<close>, \<^verbatim>\<open>return\<close>, \<^verbatim>\<open>if c: x = 1\<close> the conditional has created two nodes,
  3 and 4, and there is no edge from node 2, the second Return, to node 3.
\<close>

theorem dead_return_and_if_counterexample:
  "node_list (create_flowchart_cfg
      (Some [Return None, Return None, If ''c'' [Assign [''x''] ''1''] []])) =
     [(0, ''START'', ''start''), (1, ''return'', ''output''), (2, ''return'', ''output''),
      (3, ''c'', ''decision''), (4, ''x = 1'', ''process''), (5, ''END'', ''end'')]
   \<and> edge_list (create_flowchart_cfg
      (Some [Return None, Return None, If ''c'' [Assign [''x''] ''1''] []])) =
     [(0, 1, []), (3, 4, ''True''), (3, 5, []), (4, 5, [])]"
  unfolding return_return_if_graph
  by (simp add: node_list_def edge_list_def)

section \<open>Start nodes\<close>

text \<open>
  Claim C4, as amended. In every completed graph node 0 is the Start node of the program,
  and it has no incoming edge; the ids are \<open>0, 1, ...\<close> in order of creation. When every
  function definition of the program is a \<^verbatim>\<open>def\<close> that does not lie in the else-branch of a
  loop (\<open>defs_in_reach\<close>), the graph has exactly one Start node for the program and one
  for each function definition. The Start node of a function definition is connected
  from the frontier: whatever follows in the same statement list, the nodes with an edge
  into it are exactly the nodes of the frontier at the definition, for any well-formed
  builder \<open>b\<close>, and so in the completed graph of a program with the definition at its
  top level.
\<close>

theorem start_nodes_of_program:
  "(list_all defs_in_reach body \<longrightarrow>
      length (filter (\<lambda>k. k = ''start'') (kinds (create_flowchart_cfg (Some body)))) =
        1 + sum_list (map all_function_defs body))
   \<and> kinds (create_flowchart_cfg (Some body)) ! 0 = ''start''
   \<and> map fst (create_flowchart_cfg (Some body)) = [0..<length (create_flowchart_cfg (Some body))]
   \<and> incoming (create_flowchart_cfg (Some body)) 0 = []
   \<and> (wf b \<longrightarrow>
        (let c = current_node_id b;
             b' = visit_statements (FunctionDef name args fbody # rest) b
         in kinds (nodes b') ! c = ''start''
            \<and> set (incoming (nodes b') c) = set (current_exits b)))
   \<and> (let b = visit_statements pre
                \<lparr>nodes = [(0, CFGNode_init 0 ''START'' ''start'' None)], current_node_id = 1,
                   entry_node = Some 0, current_exits = [0], function_name = None\<rparr>;
           c = current_node_id b;
           G = create_flowchart_cfg (Some (pre @ FunctionDef name args fbody # post))
       in kinds G ! c = ''start'' \<and> set (incoming G c) = set (current_exits b))"
proof -
  let ?b0 = "(snd (create_node ''START'' ''start'' None FlowchartCFGBuilder_init))
             \<lparr>entry_node := Some (current_node_id FlowchartCFGBuilder_init),
                current_exits := [current_node_id FlowchartCFGBuilder_init]\<rparr>"
  let ?b1 = "visit_statements body ?b0"
  let ?G = "create_flowchart_cfg (Some body)"
  have G: "?G = nodes (create_and_connect ''END'' ''end'' None ?b1)"
    by (simp add: create_flowchart_cfg_def visit_Module_eq)
  have k1: "keys_ok ?b1" using program_state(1) by (rule keys_ok_visit_statements)
  have count: "length (filter (\<lambda>k. k = ''start'') (concat (map node_kinds body))) =
               sum_list (map all_function_defs body)" if "list_all defs_in_reach body"
    using that by (intro start_count_list start_count_node_kinds)
  have kG: "keys_ok (create_and_connect ''END'' ''end'' None ?b1)"
    using k1 by (rule keys_ok_create_and_connect)
  have keys: "map fst ?G = [0..<length ?G]"
    using kG keys_ok_length [OF kG] by (simp add: G keys_ok_def)
  have "keys_ok ?b1 \<and> 0 < current_node_id ?b1 \<and> incoming (nodes ?b1) 0 = []"
    using program_state by (intro no_edge_into_first_visit_statements) (simp add: incoming_def)
  then have inc: "incoming ?G 0 = []"
    using no_edge_into_first_create_and_connect [of ?b1] by (simp add: G)
  let ?F = "FunctionDef name args fbody"
  let ?s = "\<lparr>nodes = [(0, CFGNode_init 0 ''START'' ''start'' None)], current_node_id = 1,
              entry_node = Some 0, current_exits = [0], function_name = None\<rparr>"
  let ?p = "visit_statements pre ?s"
  let ?p' = "visit_statements (?F # post) ?p"
  let ?H = "create_flowchart_cfg (Some (pre @ ?F # post))"
  have wp: "wf ?p" using wf_start by (rule wf_visit_statements)
  note fs = function_start_node [OF wp, of name args fbody post]
  have H: "?H = nodes (create_and_connect ''END'' ''end'' None ?p')"
    by (simp add: create_flowchart_cfg_def visit_Module_eq program_start_eq
        visit_statements_append)
  have kp': "keys_ok ?p'" using fs(3) by (simp add: wf_def)
  have lt: "current_node_id ?p < length (kinds (nodes ?p'))"
    using fs(4) keys_ok_length [OF kp'] by (simp add: kinds_def del: visit_statements.simps)
  have "kinds ?H = kinds (nodes ?p') @ [''end'']"
    unfolding H by (rule kinds_create_and_connect [OF kp'])
  then have top1: "kinds ?H ! current_node_id ?p = ''start''"
    using fs(1) lt by (simp add: nth_append del: visit_statements.simps)
  have "set (incoming ?H (current_node_id ?p)) =
          (if current_node_id ?p = current_node_id ?p' then set (current_exits ?p')
           else set (incoming (nodes ?p') (current_node_id ?p)))"
    unfolding H by (rule incoming_create_and_connect [OF fs(3)])
  then have top2: "set (incoming ?H (current_node_id ?p)) = set (current_exits ?p)"
    using fs(2,4) by (simp del: visit_statements.simps)
  show ?thesis
    unfolding Let_def
    using keys inc count top1 top2 function_start_node(1,2) [of b name args fbody rest]
    by (simp add: kinds_program)
qed

theorem start_nodes_of_program_witness:
  "list_all defs_in_reach [FunctionDef ''f'' [''a'', ''b''] [Other (Some ''pass'') ''Pass'' []]]
   \<and> length (filter (\<lambda>k. k = ''start'')
        (kinds (create_flowchart_cfg
           (Some [FunctionDef ''f'' [''a'', ''b''] [Other (Some ''pass'') ''Pass'' []]])))) = 2
   \<and> wf \<lparr>nodes = [(0, CFGNode_init 0 ''START'' ''start'' None)], current_node_id = 1,
         entry_node = Some 0, current_exits = [0], function_name = None\<rparr>
   \<and> kinds (nodes (visit_statements
         [FunctionDef ''f'' [''a'', ''b''] [Other (Some ''pass'') ''Pass'' []]]
         \<lparr>nodes = [(0, CFGNode_init 0 ''START'' ''start'' None)], current_node_id = 1,
          entry_node = Some 0, current_exits = [0], function_name = None\<rparr>)) ! 1 = ''start''
   \<and> set (incoming (nodes (visit_statements
         [FunctionDef ''f'' [''a'', ''b''] [Other (Some ''pass'') ''Pass'' []]]
         \<lparr>nodes = [(0, CFGNode_init 0 ''START'' ''start'' None)], current_node_id = 1,
          entry_node = Some 0, current_exits = [0], function_name = None\<rparr>)) 1) = {0}
   \<and> set (incoming (create_flowchart_cfg
         (Some [FunctionDef ''f'' [''a'', ''b''] [Other (Some ''pass'') ''Pass'' []]])) 1) = {0}"
  using start_nodes_of_program
    [of "[FunctionDef ''f'' [''a'', ''b''] [Other (Some ''pass'') ''Pass'' []]]"
        "\<lparr>nodes = [(0, CFGNode_init 0 ''START'' ''start'' None)], current_node_id = 1,
          entry_node = Some 0, current_exits = [0], function_name = None\<rparr>"
        "''f''" "[''a'', ''b'']" "[Other (Some ''pass'') ''Pass'' []]" "[]" "[]" "[]"]
    wf_start
  by (simp add: Let_def)

text \<open>
  Claim C4 as stated fails for the Start node of a function: in the graph of
  \<^verbatim>\<open>def f(a, b): pass\<close> node 1 is the function's Start node and has an edge from node 0.
\<close>

theorem function_start_has_incoming_edge_counterexample:
  "node_list (create_flowchart_cfg (Some [FunctionDef ''f'' [''a'', ''b''] [Other (Some ''pass'') ''Pass'' []]])) ! 1 = (1, ''def f(a, b)'', ''start'')
   \<and> incoming (create_flowchart_cfg (Some [FunctionDef ''f'' [''a'', ''b''] [Other (Some ''pass'') ''Pass'' []]])) 1 = [0]"
  unfolding function_graph
  by (simp add: node_list_def incoming_def edge_list_def)

section \<open>Graphs without decision nodes\<close>

text \<open>
  Claim C6: when the graph built for a program has no Decision node, its cyclomatic
  complexity and its decision-count complexity are both 1.
\<close>

theorem no_decision_complexity:
  "''decision'' \<notin> set (kinds (create_flowchart_cfg (Some body))) \<Longrightarrow>
     calculate_cyclomatic_complexity (create_flowchart_cfg (Some body)) = 1
     \<and> calculate_complexity_by_decisions (create_flowchart_cfg (Some body)) = 1"
proof -
  assume nd: "''decision'' \<notin> set (kinds (create_flowchart_cfg (Some body)))"
  let ?b0 = "(snd (create_node ''START'' ''start'' None FlowchartCFGBuilder_init))
             \<lparr>entry_node := Some (current_node_id FlowchartCFGBuilder_init),
                current_exits := [current_node_id FlowchartCFGBuilder_init]\<rparr>"
  let ?b1 = "visit_statements body ?b0"
  let ?bG = "create_and_connect ''END'' ''end'' None ?b1"
  let ?G = "create_flowchart_cfg (Some body)"
  have G: "?G = nodes ?bG"
    by (simp add: create_flowchart_cfg_def visit_Module_eq)
  from nd have free: "''decision'' \<notin> set (concat (map node_kinds body))"
    by (simp add: kinds_program)
  have k1: "keys_ok ?b1" using program_state(1) by (rule keys_ok_visit_statements)
  have kG: "keys_ok ?bG" using k1 by (rule keys_ok_create_and_connect)
  have e0: "edge_count (nodes ?b0) = 0"
    using program_state(3) by (simp add: edge_count_edge_list)
  have 1: "length (current_exits ?b1) \<le> 1
     \<and> edge_count (nodes ?b1) + current_node_id ?b0
         \<le> edge_count (nodes ?b0) + current_node_id ?b1"
    using decision_free_visit program_state(1) free
    by (intro decision_free_statements) auto
  have eG: "edge_count (nodes ?bG) \<le> Suc (edge_count (nodes ?b1))"
    using decision_free_create_and_connect [OF k1] 1 by simp
  have len: "length ?G = Suc (current_node_id ?b1)"
    using keys_ok_length [OF kG] by (simp add: G)
  have "edge_count ?G + 1 \<le> length ?G"
    using 1 eG e0 program_state(4) by (simp add: len) (simp add: G)
  moreover have "?G \<noteq> []" using len by auto
  ultimately have cc: "calculate_cyclomatic_complexity ?G = 1"
    by (simp add: calculate_cyclomatic_complexity_def edge_count_def Let_def)
  have "filter (\<lambda>k. k = ''decision'') (kinds ?G) = []"
    using nd by (auto simp: filter_empty_conv)
  then have "calculate_complexity_by_decisions ?G = 1"
    by (simp add: calculate_complexity_by_decisions_def decision_count_kinds)
  with cc show ?thesis by simp
qed

theorem no_decision_complexity_witness:
  "''decision'' \<notin> set (kinds (create_flowchart_cfg (Some [Assign [''x''] ''1''])))
   \<and> calculate_cyclomatic_complexity (create_flowchart_cfg (Some [Assign [''x''] ''1''])) = 1
   \<and> calculate_complexity_by_decisions (create_flowchart_cfg (Some [Assign [''x''] ''1''])) = 1"
proof -
  have "''decision'' \<notin> set (kinds (create_flowchart_cfg (Some [Assign [''x''] ''1''])))"
    by (simp add: kinds_program)
  then show ?thesis
    using no_decision_complexity [of "[Assign [''x''] ''1'']"] by simp
qed

section \<open>The exporter is deterministic\<close>

lemma node_call_view:
  "i = j \<Longrightarrow> label n = label m \<Longrightarrow> node_type n = node_type m \<Longrightarrow>
     node_call (i, n) = node_call (j, m)"
  by (simp add: node_call_def get_shape_def get_color_def)

lemma edge_calls_view:
  "i = j \<Longrightarrow> successors n = successors m \<Longrightarrow> edge_calls (i, n) = edge_calls (j, m)"
  by (simp add: edge_calls_def)

lemma export_calls:
  "export_view g1 = export_view g2 \<Longrightarrow>
     map node_call g1 = map node_call g2
     \<and> concat (map edge_calls g1) = concat (map edge_calls g2)"
proof (induction g1 arbitrary: g2)
  case Nil
  then show ?case by (simp add: export_view_def)
next
  case (Cons a g1)
  then obtain c g2' where g2: "g2 = c # g2'" by (cases g2) (auto simp: export_view_def)
  obtain i n where a: "a = (i, n)" by (cases a)
  obtain j m where c: "c = (j, m)" by (cases c)
  from Cons.prems have hd: "i = j" "label n = label m" "node_type n = node_type m"
    "successors n = successors m" and tl: "export_view g1 = export_view g2'"
    by (simp_all add: export_view_def g2 a c)
  show ?case
    using Cons.IH [OF tl] node_call_view [OF hd(1-3)] edge_calls_view [OF hd(1,4)]
    by (simp add: g2 a c)
qed

text \<open>
  Claim C9: two graphs with the same node ids, labels, kinds and edges, in the same order,
  are exported to the same description, whatever the renderer of the recorded calls is.
  The other fields of a node (its condition and its predecessor set) are not read.
\<close>

theorem export_deterministic:
  "export_view g1 = export_view g2 \<Longrightarrow>
     visualize_flowchart_cfg source g1 = visualize_flowchart_cfg source g2"
proof -
  assume v: "export_view g1 = export_view g2"
  have "length (export_view g1) = length g1" "length (export_view g2) = length g2"
    by (simp_all add: export_view_def)
  with v have len: "length g1 = length g2" by simp
  note calls = export_calls [OF v]
  show ?thesis
  proof (cases "g1 = []")
    case True
    with len have "g2 = []" by simp
    with True show ?thesis by simp
  next
    case False
    with len have "g2 \<noteq> []" by auto
    with False show ?thesis
      unfolding visualize_flowchart_cfg_def using calls by simp
  qed
qed

theorem export_deterministic_witness:
  "export_view
     [(0, \<lparr>node_id = 0, label = ''START'', node_type = ''start'', condition = None,
            successors = [(1, ''True'')], predecessors = {}\<rparr>),
      (1, \<lparr>node_id = 1, label = ''END'', node_type = ''end'', condition = None,
            successors = [], predecessors = {0}\<rparr>)] =
   export_view
     [(0, \<lparr>node_id = 0, label = ''START'', node_type = ''start'', condition = Some ''x'',
            successors = [(1, ''True'')], predecessors = {}\<rparr>),
      (1, \<lparr>node_id = 1, label = ''END'', node_type = ''end'', condition = None,
            successors = [], predecessors = {}\<rparr>)]
   \<and> [(0, \<lparr>node_id = 0, label = ''START'', node_type = ''start'', condition = None,
            successors = [(1, ''True'')], predecessors = {}\<rparr>),
      (1, \<lparr>node_id = 1, label = ''END'', node_type = ''end'', condition = None,
            successors = [], predecessors = {0}\<rparr>)] \<noteq>
     [(0, \<lparr>node_id = 0, label = ''START'', node_type = ''start'', condition = Some ''x'',
            successors = [(1, ''True'')], predecessors = {}\<rparr>),
      (1, \<lparr>node_id = 1, label = ''END'', node_type = ''end'', condition = None,
            successors = [], predecessors = {}\<rparr>)]
   \<and> visualize_flowchart_cfg plain_source
     [(0, \<lparr>node_id = 0, label = ''START'', node_type = ''start'', condition = None,
            successors = [(1, ''True'')], predecessors = {}\<rparr>),
      (1, \<lparr>node_id = 1, label = ''END'', node_type = ''end'', condition = None,
            successors = [], predecessors = {0}\<rparr>)] =
     visualize_flowchart_cfg plain_source
     [(0, \<lparr>node_id = 0, label = ''START'', node_type = ''start'', condition = Some ''x'',
            successors = [(1, ''True'')], predecessors = {}\<rparr>),
      (1, \<lparr>node_id = 1, label = ''END'', node_type = ''end'', condition = None,
            successors = [], predecessors = {}\<rparr>)]
   \<and> visualize_flowchart_cfg plain_source
     [(0, \<lparr>node_id = 0, label = ''START'', node_type = ''start'', condition = None,
            successors = [(1, ''True'')], predecessors = {}\<rparr>),
      (1, \<lparr>node_id = 1, label = ''END'', node_type = ''end'', condition = None,
            successors = [], predecessors = {0}\<rparr>)] =
     ''graph [rankdir=TB splines=ortho]; node [fontname=Arial fontsize=10]; edge [fontname=Arial fontsize=9]; 0 [label=START shape=ellipse fillcolor=lightgreen style=filled width=1.0 height=0.5]; 1 [label=END shape=ellipse fillcolor=lightcoral style=filled width=1.0 height=0.5]; 0 -> 1 [label=True]; ''"
proof -
  have v: "export_view
     [(0, \<lparr>node_id = 0, label = ''START'', node_type = ''start'', condition = None,
            successors = [(1, ''True'')], predecessors = {}\<rparr>),
      (1, \<lparr>node_id = 1, label = ''END'', node_type = ''end'', condition = None,
            successors = [], predecessors = {0}\<rparr>)] =
   export_view
     [(0, \<lparr>node_id = 0, label = ''START'', node_type = ''start'', condition = Some ''x'',
            successors = [(1, ''True'')], predecessors = {}\<rparr>),
      (1, \<lparr>node_id = 1, label = ''END'', node_type = ''end'', condition = None,
            successors = [], predecessors = {}\<rparr>)]"
    by (simp add: export_view_def)
  have t: "visualize_flowchart_cfg plain_source
     [(0, \<lparr>node_id = 0, label = ''START'', node_type = ''start'', condition = None,
            successors = [(1, ''True'')], predecessors = {}\<rparr>),
      (1, \<lparr>node_id = 1, label = ''END'', node_type = ''end'', condition = None,
            successors = [], predecessors = {0}\<rparr>)] =
     ''graph [rankdir=TB splines=ortho]; node [fontname=Arial fontsize=10]; edge [fontname=Arial fontsize=9]; 0 [label=START shape=ellipse fillcolor=lightgreen style=filled width=1.0 height=0.5]; 1 [label=END shape=ellipse fillcolor=lightcoral style=filled width=1.0 height=0.5]; 0 -> 1 [label=True]; ''"
    by code_simp
  show ?thesis
    using export_deterministic [OF v, of plain_source] v t by simp
qed

end
